theory Spec2Isabelle
  imports Main "HOL-Library.Char_ord" "HOL-Library.List_Lexorder" "HOL-Library.Multiset"
begin

section \<open>Disk image creator: filename grammars, size resolver, partition table builder\<close>

text \<open>
  The development embeds the parsing core of \<^verbatim>\<open>diskimgcreator.py\<close>:
  \<^verbatim>\<open>_parse_size\<close>, \<^verbatim>\<open>_try_get_partitions_long_format\<close>,
  \<^verbatim>\<open>_try_get_partitions_short_format\<close>, \<^verbatim>\<open>PartitionCollection.from_directory\<close>
  and \<^verbatim>\<open>PartitionCollection.get_total_size\<close>.

  Strings are lists of 8-bit characters, read as the code points 0..255 of a Python
  \<^verbatim>\<open>str\<close>. Exceptions are values of the type \<open>error\<close>; a function that may raise
  returns \<open>error + 'a\<close>.
\<close>

subsection \<open>Exceptions\<close>

datatype error =
    PartitionSizeParseException "string option"
  | PartitionsNotFoundException
  | PartitionParseException string
  | ValueError
  | OverflowError
  | IndexError

subsection \<open>Regular expressions of Python's \<^verbatim>\<open>re\<close> module\<close>

text \<open>
  The source's patterns use literals, character classes, greedy \<^verbatim>\<open>*\<close>, \<^verbatim>\<open>+\<close>
  on a class, greedy \<^verbatim>\<open>?\<close>, alternation, capture groups, \<^verbatim>\<open>^\<close> and \<^verbatim>\<open>$\<close>.
  \<open>Mark\<close> is not part of the pattern language: it closes a group that was opened when
  the consumed text had the recorded length.
\<close>

type_synonym cls = "char \<Rightarrow> bool"

datatype re =
    Lit string
  | Cls cls
  | Star cls
  | Plus cls
  | Opt "re list"
  | Alt "re list" "re list"
  | Group string "re list"
  | Mark string nat
  | Bol
  | Eol

fun isize :: "re \<Rightarrow> nat" where
  "isize (Opt r) = Suc (sum_list (map isize r))"
| "isize (Alt a b) = Suc (sum_list (map isize a) + sum_list (map isize b))"
| "isize (Group n r) = Suc (Suc (sum_list (map isize r)))"
| "isize (Plus c) = 3"
| "isize _ = 1"

type_synonym caps = "(string \<times> string) list"

text \<open>
  \<open>rmatch rs pre s caps\<close> matches the pattern \<open>rs\<close> against the remaining input \<open>s\<close>,
  after the text \<open>pre\<close> has been consumed, by backtracking in the order of Python's
  matcher: a greedy repetition tries the longest extent first, an optional part is tried
  before it is skipped, the left alternative before the right one. The first success
  is the result; the groups set on an abandoned path are forgotten with it.
\<close>

function rmatch :: "re list \<Rightarrow> string \<Rightarrow> string \<Rightarrow> caps \<Rightarrow> caps option" where
  "rmatch [] pre s caps = Some caps"
| "rmatch (Lit l # rs) pre s caps =
     (if take (length l) s = l then rmatch rs (pre @ l) (drop (length l) s) caps else None)"
| "rmatch (Cls c # rs) pre s caps =
     (case s of [] \<Rightarrow> None
      | x # xs \<Rightarrow> if c x then rmatch rs (pre @ [x]) xs caps else None)"
| "rmatch (Star c # rs) pre s caps =
     (case s of [] \<Rightarrow> rmatch rs pre s caps
      | x # xs \<Rightarrow>
          if c x then
            (case rmatch (Star c # rs) (pre @ [x]) xs caps of
               Some m \<Rightarrow> Some m
             | None \<Rightarrow> rmatch rs pre s caps)
          else rmatch rs pre s caps)"
| "rmatch (Plus c # rs) pre s caps = rmatch (Cls c # Star c # rs) pre s caps"
| "rmatch (Opt r # rs) pre s caps =
     (case rmatch (r @ rs) pre s caps of
        Some m \<Rightarrow> Some m
      | None \<Rightarrow> rmatch rs pre s caps)"
| "rmatch (Alt a b # rs) pre s caps =
     (case rmatch (a @ rs) pre s caps of
        Some m \<Rightarrow> Some m
      | None \<Rightarrow> rmatch (b @ rs) pre s caps)"
| "rmatch (Group n r # rs) pre s caps = rmatch (r @ Mark n (length pre) # rs) pre s caps"
| "rmatch (Mark n k # rs) pre s caps = rmatch rs pre s ((n, drop k pre) # caps)"
| "rmatch (Bol # rs) pre s caps = (if pre = [] then rmatch rs pre s caps else None)"
| "rmatch (Eol # rs) pre s caps =
     (if s = [] \<or> s = [CHR 0x0A] then rmatch rs pre s caps else None)"
  by pat_completeness auto
termination
  by (relation "measures [\<lambda>(rs, pre, s, caps). sum_list (map isize rs),
                          \<lambda>(rs, pre, s, caps). length s]") auto

text \<open>\<^verbatim>\<open>pattern.match(s)\<close> and \<^verbatim>\<open>m.group(name)\<close> (\<open>None\<close> for a group that took no part).\<close>

definition re_match :: "re list \<Rightarrow> string \<Rightarrow> caps option" where
  "re_match rs s = rmatch rs [] s []"

definition group :: "caps \<Rightarrow> string \<Rightarrow> string option" where
  "group m n = map_of m n"

text \<open>The character classes of the source's patterns.\<close>

definition digit :: cls where
  \<comment> \<open>\<^verbatim>\<open>\d\<close>: among the code points below 256 the decimal digits are 0 to 9\<close>
  "digit c = (c \<in> set ''0123456789'')"

definition anychar :: cls where
  \<comment> \<open>\<^verbatim>\<open>.\<close>: anything but a newline\<close>
  "anychar c = (c \<noteq> CHR 0x0A)"

definition one_of :: "string \<Rightarrow> cls" where
  "one_of cs c = (c \<in> set cs)"

definition none_of :: "string \<Rightarrow> cls" where
  "none_of cs c = (c \<notin> set cs)"

definition digit_or_dot :: cls where
  \<comment> \<open>\<^verbatim>\<open>[\d\.]\<close>\<close>
  "digit_or_dot c = (digit c \<or> c = CHR ''.'')"

subsection \<open>Double-precision numbers\<close>

text \<open>
  \<^verbatim>\<open>_parse_size\<close> computes \<^verbatim>\<open>int(float(num) * units[unit])\<close>. A Python float is an
  IEEE 754 binary64 number; \<^verbatim>\<open>float\<close> of a decimal string and the product are both
  rounded to the nearest double, ties to even. Only non-negative values occur.
  \<open>Finite m e\<close> stands for \<open>m * 2 ^ e\<close>.
\<close>

datatype double = Finite nat int | Infinity

fun bitlen :: "nat \<Rightarrow> nat" where
  "bitlen n = (if n = 0 then 0 else Suc (bitlen (n div 2)))"

declare bitlen.simps [simp del]

definition ge_pow2 :: "nat \<Rightarrow> nat \<Rightarrow> int \<Rightarrow> bool" where
  \<comment> \<open>\<open>a / b \<ge> 2 ^ d\<close>\<close>
  "ge_pow2 a b d = (if 0 \<le> d then b * 2 ^ nat d \<le> a else b \<le> a * 2 ^ nat (- d))"

definition round_half_even :: "nat \<Rightarrow> nat \<Rightarrow> nat" where
  \<comment> \<open>the integer nearest to \<open>n / d\<close>, the even one of two\<close>
  "round_half_even n d =
     (let q = n div d; r = n mod d
      in if 2 * r < d then q
         else if d < 2 * r then q + 1
         else if even q then q else q + 1)"

definition round_double :: "nat \<Rightarrow> nat \<Rightarrow> double" where
  \<comment> \<open>the double nearest to \<open>a / b\<close>, for \<open>b > 0\<close>: 53 significant bits, exponents from
      \<open>-1074\<close>, overflow to infinity from \<open>2 ^ 1024\<close>\<close>
  "round_double a b =
     (if a = 0 then Finite 0 0
      else
        let d = int (bitlen a) - int (bitlen b);
            ex = (if ge_pow2 a b d then d else d - 1);
            e = max (ex - 52) (- 1074);
            m = (if 0 \<le> e then round_half_even a (b * 2 ^ nat e)
                 else round_half_even (a * 2 ^ nat (- e)) b)
        in if 1024 < int (bitlen m) + e then Infinity else Finite m e)"

definition fmul :: "double \<Rightarrow> nat \<Rightarrow> double" where
  \<comment> \<open>\<^verbatim>\<open>num * k\<close> for a float \<open>num\<close> and a positive int \<open>k\<close> below \<open>2 ^ 53\<close>\<close>
  "fmul x k =
     (case x of
        Infinity \<Rightarrow> Infinity
      | Finite m e \<Rightarrow>
          if 0 \<le> e then round_double (m * k * 2 ^ nat e) 1
          else round_double (m * k) (2 ^ nat (- e)))"

definition int_of_double :: "double \<Rightarrow> error + int" where
  \<comment> \<open>\<^verbatim>\<open>int(x)\<close>: truncation; \<^verbatim>\<open>int(inf)\<close> raises OverflowError\<close>
  "int_of_double x =
     (case x of
        Infinity \<Rightarrow> Inl OverflowError
      | Finite m e \<Rightarrow>
          Inr (if 0 \<le> e then int (m * 2 ^ nat e) else int (m div 2 ^ nat (- e))))"

definition digit_val :: "char \<Rightarrow> nat" where
  "digit_val c = of_char c - 48"

definition nat_of_digits :: "string \<Rightarrow> nat" where
  "nat_of_digits ds = foldl (\<lambda>n c. 10 * n + digit_val c) 0 ds"

definition float_of_string :: "string \<Rightarrow> error + double" where
  \<comment> \<open>\<^verbatim>\<open>float(s)\<close> for a string of digits and dots: at most one dot and at least one
      digit, otherwise ValueError\<close>
  "float_of_string s =
     (let ip = takeWhile digit s; tl_part = dropWhile digit s
      in if tl_part = [] then
           (if ip = [] then Inl ValueError else Inr (round_double (nat_of_digits ip) 1))
         else
           let fp = tl tl_part
           in if hd tl_part = CHR ''.'' \<and> list_all digit fp \<and> ip @ fp \<noteq> []
              then Inr (round_double (nat_of_digits (ip @ fp)) (10 ^ length fp))
              else Inl ValueError)"

subsection \<open>The size resolver\<close>

definition upper_chars :: string where
  \<comment> \<open>the code points below 256 that \<^verbatim>\<open>str.lower\<close> changes: A to Z, and
      U+00C0 to U+00DE without the multiplication sign U+00D7\<close>
  "upper_chars =
     ''ABCDEFGHIJKLMNOPQRSTUVWXYZ'' @
     [CHR 0xC0, CHR 0xC1, CHR 0xC2, CHR 0xC3, CHR 0xC4, CHR 0xC5, CHR 0xC6, CHR 0xC7,
      CHR 0xC8, CHR 0xC9, CHR 0xCA, CHR 0xCB, CHR 0xCC, CHR 0xCD, CHR 0xCE, CHR 0xCF,
      CHR 0xD0, CHR 0xD1, CHR 0xD2, CHR 0xD3, CHR 0xD4, CHR 0xD5, CHR 0xD6,
      CHR 0xD8, CHR 0xD9, CHR 0xDA, CHR 0xDB, CHR 0xDC, CHR 0xDD, CHR 0xDE]"

definition lower_chars :: string where
  \<comment> \<open>their lower-case forms, 32 code points up\<close>
  "lower_chars =
     ''abcdefghijklmnopqrstuvwxyz'' @
     [CHR 0xE0, CHR 0xE1, CHR 0xE2, CHR 0xE3, CHR 0xE4, CHR 0xE5, CHR 0xE6, CHR 0xE7,
      CHR 0xE8, CHR 0xE9, CHR 0xEA, CHR 0xEB, CHR 0xEC, CHR 0xED, CHR 0xEE, CHR 0xEF,
      CHR 0xF0, CHR 0xF1, CHR 0xF2, CHR 0xF3, CHR 0xF4, CHR 0xF5, CHR 0xF6,
      CHR 0xF8, CHR 0xF9, CHR 0xFA, CHR 0xFB, CHR 0xFC, CHR 0xFD, CHR 0xFE]"

definition lower_char :: "char \<Rightarrow> char" where
  "lower_char c = (case map_of (zip upper_chars lower_chars) c of Some d \<Rightarrow> d | None \<Rightarrow> c)"

definition lower :: "string \<Rightarrow> string" where
  "lower s = map lower_char s"

definition units :: "(string \<times> nat) list" where
  "units =
     [('''', 1000 ^ 2),
      (''s'', 512),
      (''b'', 1),
      (''kb'', 1000),
      (''mb'', 1000 ^ 2),
      (''gb'', 1000 ^ 3),
      (''tb'', 1000 ^ 4),
      (''kib'', 1024),
      (''mib'', 1024 ^ 2),
      (''gib'', 1024 ^ 3),
      (''tib'', 1024 ^ 4)]"

definition size_format :: "re list" where
  \<comment> \<open>\<^verbatim>\<open>^([\d\.]+)(.*)$\<close>\<close>
  "size_format = [Bol, Group ''1'' [Plus digit_or_dot], Group ''2'' [Star anychar], Eol]"

definition parse_size :: "string \<Rightarrow> error + int" where
  "parse_size size_str =
     (case re_match size_format size_str of
        Some m \<Rightarrow>
          (case float_of_string (the (group m ''1'')) of
             Inl err \<Rightarrow> Inl err
           | Inr num \<Rightarrow>
               let unit = lower (the (group m ''2''))
               in (case map_of units unit of
                     Some u \<Rightarrow> int_of_double (fmul num u)
                   | None \<Rightarrow> Inl (PartitionSizeParseException None)))
      | None \<Rightarrow> Inl (PartitionSizeParseException None))"

subsection \<open>Partition descriptors and the filename grammars\<close>

record Partition =
  filename :: string
  parted :: string
  fstype :: string

definition long_format :: "re list" where
  \<comment> \<open>\<^verbatim>\<open>.*partition(\d\d?).*-- parted (?P<parted>.*)(\.tar|\.tar\.gz)?$\<close>\<close>
  "long_format =
     [Star anychar, Lit ''partition'', Group ''1'' [Cls digit, Opt [Cls digit]],
      Star anychar, Lit ''-- parted '', Group ''parted'' [Star anychar],
      Opt [Group ''3'' [Alt [Lit ''.tar''] [Lit ''.tar.gz'']]], Eol]"

definition long_format_fstype :: "re list" where
  \<comment> \<open>\<^verbatim>\<open>.* (?P<fstype>[^ ]+) (?P<partition_start>[^ ]+) (?P<partition_end>[^ ]+)$\<close>\<close>
  "long_format_fstype =
     [Star anychar, Lit '' '', Group ''fstype'' [Plus (none_of '' '')],
      Lit '' '', Group ''partition_start'' [Plus (none_of '' '')],
      Lit '' '', Group ''partition_end'' [Plus (none_of '' '')], Eol]"

definition short_format :: "re list" where
  \<comment> \<open>\<^verbatim>\<open>.*partition(\d\d?)[_ ](?P<msdos>msdos[_ ])?(?P<partition_end>[^_ ]+)[_ ](?P<fstype>[^_\. ]+)(\.tar|\.tar\.gz)?$\<close>\<close>
  "short_format =
     [Star anychar, Lit ''partition'', Group ''1'' [Cls digit, Opt [Cls digit]],
      Cls (one_of ''_ ''),
      Opt [Group ''msdos'' [Lit ''msdos'', Cls (one_of ''_ '')]],
      Group ''partition_end'' [Plus (none_of ''_ '')],
      Cls (one_of ''_ ''),
      Group ''fstype'' [Plus (none_of ''_. '')],
      Opt [Group ''5'' [Alt [Lit ''.tar''] [Lit ''.tar.gz'']]], Eol]"

definition size_long_format :: "re list" where
  \<comment> \<open>\<^verbatim>\<open>long_format\<close> of \<^verbatim>\<open>get_total_size\<close>: \<^verbatim>\<open>.* -- dd (?P<size_all>[^ $]+)\<close>\<close>
  "size_long_format =
     [Star anychar, Lit '' -- dd '', Group ''size_all'' [Plus (none_of '' $'')]]"

definition size_short_format :: "re list" where
  \<comment> \<open>\<^verbatim>\<open>short_format\<close> of \<^verbatim>\<open>get_total_size\<close>:
      \<^verbatim>\<open>.*partition(\d\d?)[_ ](?P<partition_end>[^_ ]+)\<close>\<close>
  "size_short_format =
     [Star anychar, Lit ''partition'', Group ''1'' [Cls digit, Opt [Cls digit]],
      Cls (one_of ''_ ''),
      Group ''partition_end'' [Plus (none_of ''_ '')]]"

subsection \<open>The long-format builder\<close>

text \<open>The loop \<^verbatim>\<open>for fname in files\<close>, with the list \<^verbatim>\<open>partitions\<close> it appends to.\<close>

fun long_loop :: "string list \<Rightarrow> Partition list \<Rightarrow> error + Partition list" where
  "long_loop [] partitions = Inr partitions"
| "long_loop (fname # files) partitions =
     (case re_match long_format fname of
        None \<Rightarrow> Inl (PartitionParseException fname)
      | Some m \<Rightarrow>
          let parted' = the (group m ''parted'')
          in (case re_match long_format_fstype parted' of
                None \<Rightarrow> Inl (PartitionParseException fname)
              | Some m' \<Rightarrow>
                  let fstype' = the (group m' ''fstype'')
                  in long_loop files
                       (partitions @ [\<lparr>filename = fname, parted = parted', fstype = fstype'\<rparr>])))"

definition try_get_partitions_long_format :: "string list \<Rightarrow> error + Partition list" where
  \<comment> \<open>\<^verbatim>\<open>files[0]\<close> of an empty list raises IndexError\<close>
  "try_get_partitions_long_format files =
     (case files of
        [] \<Rightarrow> Inl IndexError
      | f0 # _ \<Rightarrow>
          if re_match long_format f0 \<noteq> None then long_loop files [] else Inr [])"

subsection \<open>The short-format builder\<close>

definition truthy :: "string option \<Rightarrow> bool" where
  \<comment> \<open>\<^verbatim>\<open>if m.group("msdos")\<close>: neither \<open>None\<close> nor the empty string\<close>
  "truthy g = (g \<noteq> None \<and> g \<noteq> Some [])"

text \<open>
  The loop \<^verbatim>\<open>for i, fname in enumerate(files)\<close>: its state is the index \<open>i\<close>, the
  variable \<^verbatim>\<open>partition_end\<close> carried from one file to the next, and the list
  \<^verbatim>\<open>partitions\<close>.
\<close>

fun short_loop ::
  "nat \<Rightarrow> nat \<Rightarrow> string \<Rightarrow> string list \<Rightarrow> Partition list \<Rightarrow> error + Partition list" where
  "short_loop last_index i partition_end [] partitions = Inr partitions"
| "short_loop last_index i partition_end (fname # files) partitions =
     (case re_match short_format fname of
        None \<Rightarrow> Inl (PartitionParseException fname)
      | Some m \<Rightarrow>
          let fstype' = the (group m ''fstype'');
              partition_start = partition_end;
              partition_end1 = the (group m ''partition_end'');
              partition_end2 = (if last_index = i then ''100%'' else partition_end1);
              parted' =
                (if i = 0 then
                   let table_type = (if truthy (group m ''msdos'') then ''msdos'' else ''gpt'')
                   in ''unit s mklabel '' @ table_type @ '' mkpart primary '' @ fstype' @ '' '' @
                      partition_start @ '' '' @ partition_end2 @ '' set 1 boot on''
                 else ''mkpart primary '' @ fstype' @ '' '' @ partition_start @ '' '' @
                      partition_end2)
          in short_loop last_index (Suc i) partition_end2 files
               (partitions @ [\<lparr>filename = fname, parted = parted', fstype = fstype'\<rparr>]))"

definition first_partition_start :: string where
  "first_partition_start = ''1MiB''"

definition try_get_partitions_short_format :: "string list \<Rightarrow> error + Partition list" where
  "try_get_partitions_short_format files =
     (case files of
        [] \<Rightarrow> Inl IndexError
      | f0 # _ \<Rightarrow>
          if re_match short_format f0 \<noteq> None
          then short_loop (length files - 1) 0 first_partition_start files []
          else Inr [])"

subsection \<open>The partition collection\<close>

text \<open>
  \<^verbatim>\<open>PartitionCollection.from_directory\<close>. Its argument is what
  \<^verbatim>\<open>glob.glob(os.path.join(from_dir, "partition[0-9][0-9]?*"))\<close> returned, in the
  arbitrary order of the directory listing; Python's \<^verbatim>\<open>sorted\<close> orders strings by
  code point. \<^verbatim>\<open>a or b\<close> evaluates \<open>b\<close> only when \<open>a\<close> is the empty list.
\<close>

definition from_directory :: "string list \<Rightarrow> error + Partition list" where
  "from_directory globbed =
     (let partition_filenames = sort globbed
      in case try_get_partitions_long_format partition_filenames of
           Inl err \<Rightarrow> Inl err
         | Inr long_partitions \<Rightarrow>
             (case (if long_partitions \<noteq> [] then Inr long_partitions
                    else try_get_partitions_short_format partition_filenames) of
                Inl err \<Rightarrow> Inl err
              | Inr partitions \<Rightarrow>
                  if length partitions = 0 then Inl PartitionsNotFoundException
                  else Inr partitions))"

text \<open>
  \<^verbatim>\<open>PartitionCollection.get_total_size\<close>, on the list \<^verbatim>\<open>self._partitions\<close>:
  \<^verbatim>\<open>self._partitions[0]\<close> and \<^verbatim>\<open>self._partitions[-1]\<close> raise IndexError on an
  empty list.
\<close>

definition get_total_size :: "Partition list \<Rightarrow> error + int" where
  "get_total_size partitions =
     (case partitions of
        [] \<Rightarrow> Inl IndexError
      | p0 # _ \<Rightarrow>
          (case re_match size_long_format (filename p0) of
             Some m \<Rightarrow> parse_size (the (group m ''size_all''))
           | None \<Rightarrow>
               (case re_match size_short_format (filename (last partitions)) of
                  Some m \<Rightarrow> parse_size (the (group m ''partition_end''))
                | None \<Rightarrow> Inl (PartitionSizeParseException None))))"

subsection \<open>What the statements below refer to\<close>

text \<open>
  The fields a short-format filename declares, as the builder's pattern captures them,
  and the descriptor the specification prescribes for the file at position \<open>i\<close> of a
  short-format list: the start is \<^verbatim>\<open>1MiB\<close> for the first file and the declared end of
  the previous file otherwise, the end is the declared one except for the last file,
  where it is \<^verbatim>\<open>100%\<close>, and the first file carries the table type and the boot flag.
\<close>

definition end_token :: "string \<Rightarrow> string" where
  "end_token f = the (group (the (re_match short_format f)) ''partition_end'')"

definition fstype_token :: "string \<Rightarrow> string" where
  "fstype_token f = the (group (the (re_match short_format f)) ''fstype'')"

definition msdos_marker :: "string \<Rightarrow> bool" where
  "msdos_marker f = truthy (group (the (re_match short_format f)) ''msdos'')"

definition table_descriptor :: "string list \<Rightarrow> nat \<Rightarrow> Partition" where
  "table_descriptor files i =
     (let f = files ! i;
          start = (if i = 0 then ''1MiB'' else end_token (files ! (i - 1)));
          end' = (if i = length files - 1 then ''100%'' else end_token f)
      in \<lparr>filename = f,
          parted =
            (if i = 0 then
               ''unit s mklabel '' @ (if msdos_marker f then ''msdos'' else ''gpt'') @
               '' mkpart primary '' @ fstype_token f @ '' '' @ start @ '' '' @ end' @
               '' set 1 boot on''
             else ''mkpart primary '' @ fstype_token f @ '' '' @ start @ '' '' @ end'),
          fstype = fstype_token f\<rparr>)"

text \<open>The same for a long-format filename: the captured script and its filesystem type.\<close>

definition parted_text :: "string \<Rightarrow> string" where
  "parted_text f = the (group (the (re_match long_format f)) ''parted'')"

definition long_ok :: "string \<Rightarrow> bool" where
  "long_ok f =
     (re_match long_format f \<noteq> None \<and> re_match long_format_fstype (parted_text f) \<noteq> None)"

definition long_descriptor :: "string \<Rightarrow> Partition" where
  "long_descriptor f =
     \<lparr>filename = f, parted = parted_text f,
      fstype = the (group (the (re_match long_format_fstype (parted_text f))) ''fstype'')\<rparr>"

text \<open>
  \<open>occurrences P f\<close> counts the places of \<open>f\<close> where the rest of the text satisfies
  \<open>P\<close>; \<open>is_index\<close> holds where the text \<^verbatim>\<open>partition\<close> and a digit begin, \<open>is_dd\<close>
  where the text \<^verbatim>\<open> -- dd \<close> and one character of a size token begin.
\<close>

primrec occurrences :: "(string \<Rightarrow> bool) \<Rightarrow> string \<Rightarrow> nat" where
  "occurrences P [] = 0"
| "occurrences P (x # xs) = (if P (x # xs) then 1 else 0) + occurrences P xs"

definition is_index :: "string \<Rightarrow> bool" where
  "is_index s =
     (take 9 s = ''partition'' \<and> (case drop 9 s of [] \<Rightarrow> False | d # _ \<Rightarrow> digit d))"

definition is_dd :: "string \<Rightarrow> bool" where
  "is_dd s =
     (take 7 s = '' -- dd '' \<and> (case drop 7 s of [] \<Rightarrow> False | c # _ \<Rightarrow> none_of '' $'' c))"

text \<open>
  The truncation of a decimal number times \<open>k\<close> in exact arithmetic: the digits of
  \<open>num\<close> read as one integer, times \<open>k\<close>, divided by ten to the number of digits
  after the dot.
\<close>

definition exact_truncation :: "string \<Rightarrow> nat \<Rightarrow> int" where
  "exact_truncation num k =
     int (nat_of_digits (filter digit num) * k div 10 ^ length (tl (dropWhile digit num)))"

text \<open>
  The groups that every match of a pattern sets: those that are neither inside an
  optional part nor inside an alternative.
\<close>

fun top_groups :: "re list \<Rightarrow> string set" where
  "top_groups [] = {}"
| "top_groups (Group n r # rs) = insert n (top_groups r \<union> top_groups rs)"
| "top_groups (Mark n k # rs) = insert n (top_groups rs)"
| "top_groups (Plus c # rs) = top_groups rs"
| "top_groups (Lit l # rs) = top_groups rs"
| "top_groups (Cls c # rs) = top_groups rs"
| "top_groups (Star c # rs) = top_groups rs"
| "top_groups (Opt r # rs) = top_groups rs"
| "top_groups (Alt a b # rs) = top_groups rs"
| "top_groups (Bol # rs) = top_groups rs"
| "top_groups (Eol # rs) = top_groups rs"

section \<open>Evaluation\<close>

lemmas cls_defs = digit_def digit_or_dot_def anychar_def one_of_def none_of_def

lemmas pat_defs = long_format_def long_format_fstype_def short_format_def
  size_long_format_def size_short_format_def size_format_def

lemmas build_defs = try_get_partitions_short_format_def try_get_partitions_long_format_def
  from_directory_def re_match_def group_def truthy_def first_partition_start_def Let_def

lemma bitlen_0: "bitlen 0 = 0"
  by (simp add: bitlen.simps)

lemma bitlen_Suc0: "bitlen (Suc 0) = Suc 0"
  by (simp add: bitlen.simps)

lemma bitlen_Bit0: "bitlen (numeral (Num.Bit0 n)) = Suc (bitlen (numeral n))"
  by (subst bitlen.simps) simp

lemma bitlen_Bit1: "bitlen (numeral (Num.Bit1 n)) = Suc (bitlen (numeral n))"
  by (subst bitlen.simps) simp

lemmas size_defs = parse_size_def float_of_string_def round_double_def round_half_even_def
  ge_pow2_def fmul_def int_of_double_def nat_of_digits_def digit_val_def lower_def
  lower_char_def upper_chars_def lower_chars_def units_def
  bitlen_0 bitlen_Suc0 bitlen_Bit0 bitlen_Bit1

lemma parse_size_8MiB: "parse_size ''8MiB'' = Inr 8388608"
  by (simp add: size_defs build_defs pat_defs cls_defs)

lemma parse_size_msdos: "parse_size ''msdos'' = Inl (PartitionSizeParseException None)"
  by (simp add: size_defs build_defs pat_defs cls_defs)

lemma parse_size_5MB: "parse_size ''5MB'' = Inr 5000000"
  by (simp add: size_defs build_defs pat_defs cls_defs)

lemma parse_size_16GiB: "parse_size ''16GiB'' = Inr 17179869184"
  by (simp add: size_defs build_defs pat_defs cls_defs)

lemma parse_size_256MiB: "parse_size ''256MiB'' = Inr 268435456"
  by (simp add: size_defs build_defs pat_defs cls_defs)

lemma parse_size_dashes: "parse_size ''--'' = Inl (PartitionSizeParseException None)"
  by (simp add: size_defs build_defs pat_defs cls_defs)

section \<open>Properties of the matcher\<close>

lemma rmatch_Lit_Some:
  assumes "rmatch (Lit l # rs) pre s caps = Some m"
  shows "\<exists>v. s = l @ v \<and> rmatch rs (pre @ l) v caps = Some m"
proof -
  from assms have t: "take (length l) s = l"
    by (simp split: if_splits)
  then have "s = l @ drop (length l) s"
    by (metis append_take_drop_id)
  moreover from assms t have "rmatch rs (pre @ l) (drop (length l) s) caps = Some m"
    by simp
  ultimately show ?thesis by blast
qed

lemma rmatch_Cls_Some:
  assumes "rmatch (Cls c # rs) pre s caps = Some m"
  shows "\<exists>x v. s = x # v \<and> c x \<and> rmatch rs (pre @ [x]) v caps = Some m"
  using assms by (cases s) (auto split: if_splits)

lemma rmatch_Star_Some:
  "rmatch (Star c # rs) pre s caps = Some m \<Longrightarrow>
   \<exists>u v. s = u @ v \<and> list_all c u \<and> rmatch rs (pre @ u) v caps = Some m"
proof (induction s arbitrary: pre)
  case Nil
  then show ?case by simp
next
  case (Cons x xs)
  show ?case
  proof (cases "c x \<and> rmatch (Star c # rs) (pre @ [x]) xs caps \<noteq> None")
    case True
    with Cons.prems have "rmatch (Star c # rs) (pre @ [x]) xs caps = Some m"
      by auto
    from Cons.IH [OF this] obtain u v where
      "xs = u @ v" "list_all c u" "rmatch rs ((pre @ [x]) @ u) v caps = Some m"
      by blast
    with True have "x # xs = (x # u) @ v \<and> list_all c (x # u) \<and>
        rmatch rs (pre @ x # u) v caps = Some m"
      by simp
    then show ?thesis by blast
  next
    case False
    with Cons.prems have "rmatch rs pre (x # xs) caps = Some m"
      by (auto split: if_splits option.splits)
    then have "x # xs = [] @ (x # xs) \<and> list_all c [] \<and>
        rmatch rs (pre @ []) (x # xs) caps = Some m"
      by simp
    then show ?thesis by blast
  qed
qed

text \<open>A greedy repetition stops at the longest extent after which the rest matches.\<close>

lemma rmatch_Star_none_longer:
  "(\<And>w x. w \<noteq> [] \<Longrightarrow> v = w @ x \<Longrightarrow> list_all c w \<Longrightarrow> rmatch rs (pre @ w) x caps = None) \<Longrightarrow>
   rmatch (Star c # rs) pre v caps = rmatch rs pre v caps"
proof (induction v arbitrary: pre)
  case Nil
  then show ?case by simp
next
  case (Cons y ys)
  show ?case
  proof (cases "c y")
    case True
    have "rmatch (Star c # rs) (pre @ [y]) ys caps = rmatch rs (pre @ [y]) ys caps"
    proof (rule Cons.IH)
      fix w x assume "w \<noteq> []" "ys = w @ x" "list_all c w"
      with True have "rmatch rs (pre @ (y # w)) x caps = None"
        by (intro Cons.prems) auto
      then show "rmatch rs ((pre @ [y]) @ w) x caps = None" by simp
    qed
    moreover have "rmatch rs (pre @ [y]) ys caps = None"
      using True by (intro Cons.prems) auto
    ultimately show ?thesis using True by simp
  next
    case False
    then show ?thesis by simp
  qed
qed

lemma rmatch_Star_pick:
  assumes "list_all c u"
    and "\<And>w x. w \<noteq> [] \<Longrightarrow> v = w @ x \<Longrightarrow> list_all c w \<Longrightarrow> rmatch rs (pre @ u @ w) x caps = None"
    and "rmatch rs (pre @ u) v caps = Some m"
  shows "rmatch (Star c # rs) pre (u @ v) caps = Some m"
  using assms
proof (induction u arbitrary: pre)
  case Nil
  have "rmatch (Star c # rs) pre v caps = rmatch rs pre v caps"
    by (rule rmatch_Star_none_longer) (use Nil.prems(2) in simp)
  with Nil.prems(3) show ?case by simp
next
  case (Cons a u)
  have "rmatch (Star c # rs) (pre @ [a]) (u @ v) caps = Some m"
  proof (rule Cons.IH)
    show "list_all c u" using Cons.prems(1) by simp
    show "rmatch rs ((pre @ [a]) @ u) v caps = Some m" using Cons.prems(3) by simp
    fix w x assume "w \<noteq> []" "v = w @ x" "list_all c w"
    then have "rmatch rs (pre @ (a # u) @ w) x caps = None" by (rule Cons.prems(2))
    then show "rmatch rs ((pre @ [a]) @ u @ w) x caps = None" by simp
  qed
  with Cons.prems(1) show ?case by simp
qed

lemma rmatch_Star_max:
  assumes "list_all c u" and "v = [] \<or> \<not> c (hd v)"
    and "rmatch rs (pre @ u) v caps = Some m"
  shows "rmatch (Star c # rs) pre (u @ v) caps = Some m"
proof (rule rmatch_Star_pick [OF assms(1) _ assms(3)])
  fix w x assume "w \<noteq> []" "v = w @ x" "list_all c w"
  with assms(2) have False by (cases w) auto
  then show "rmatch rs (pre @ u @ w) x caps = None" ..
qed

lemma rmatch_Opt_Some:
  "rmatch (Opt r # rs) pre s caps = Some m \<Longrightarrow>
   rmatch (r @ rs) pre s caps = Some m \<or> rmatch rs pre s caps = Some m"
  by (auto split: option.splits)

lemma rmatch_Alt_Some:
  "rmatch (Alt a b # rs) pre s caps = Some m \<Longrightarrow>
   rmatch (a @ rs) pre s caps = Some m \<or> rmatch (b @ rs) pre s caps = Some m"
  by (auto split: option.splits)

lemma rmatch_Eol_Some:
  "rmatch (Eol # rs) pre s caps = Some m \<Longrightarrow>
   (s = [] \<or> s = [CHR 0x0A]) \<and> rmatch rs pre s caps = Some m"
  by (auto split: if_splits)

lemma rmatch_Plus_Some:
  assumes "rmatch (Plus c # rs) pre s caps = Some m"
  shows "\<exists>u v. s = u @ v \<and> u \<noteq> [] \<and> list_all c u \<and> rmatch rs (pre @ u) v caps = Some m"
proof -
  from assms have "rmatch (Cls c # Star c # rs) pre s caps = Some m" by simp
  then obtain x v where 1: "s = x # v" "c x" "rmatch (Star c # rs) (pre @ [x]) v caps = Some m"
    using rmatch_Cls_Some by blast
  from rmatch_Star_Some [OF 1(3)] obtain u w where
    2: "v = u @ w" "list_all c u" "rmatch rs ((pre @ [x]) @ u) w caps = Some m"
    by blast
  from 1 2 have "s = (x # u) @ w \<and> x # u \<noteq> [] \<and> list_all c (x # u) \<and>
      rmatch rs (pre @ (x # u)) w caps = Some m"
    by simp
  then show ?thesis by blast
qed

lemma rmatch_Group_Plus_Some:
  assumes "rmatch (Group n [Plus c] # rs) pre s caps = Some m"
  shows "\<exists>u v. s = u @ v \<and> u \<noteq> [] \<and> list_all c u \<and>
           rmatch rs (pre @ u) v ((n, u) # caps) = Some m"
proof -
  from assms have "rmatch (Plus c # Mark n (length pre) # rs) pre s caps = Some m"
    by simp
  from rmatch_Plus_Some [OF this] obtain u v where
    "s = u @ v" "u \<noteq> []" "list_all c u"
    "rmatch (Mark n (length pre) # rs) (pre @ u) v caps = Some m"
    by blast
  then show ?thesis by auto
qed

lemma rmatch_index_Some:
  assumes "rmatch (Group n [Cls c, Opt [Cls c]] # rs) pre s caps = Some m"
  shows "\<exists>ds v. s = ds @ v \<and> ds \<noteq> [] \<and> length ds \<le> 2 \<and> list_all c ds \<and>
           rmatch rs (pre @ ds) v ((n, ds) # caps) = Some m"
proof -
  let ?k = "Mark n (length pre) # rs"
  from assms have "rmatch (Cls c # Opt [Cls c] # ?k) pre s caps = Some m"
    by simp
  then obtain x v where 1: "s = x # v" "c x"
      "rmatch (Opt [Cls c] # ?k) (pre @ [x]) v caps = Some m"
    using rmatch_Cls_Some by blast
  from rmatch_Opt_Some [OF 1(3)]
  consider "rmatch (Cls c # ?k) (pre @ [x]) v caps = Some m"
    | "rmatch ?k (pre @ [x]) v caps = Some m"
    by auto
  then show ?thesis
  proof cases
    case 1
    then obtain y w where 2: "v = y # w" "c y" "rmatch ?k ((pre @ [x]) @ [y]) w caps = Some m"
      using rmatch_Cls_Some by blast
    with \<open>s = x # v\<close> \<open>c x\<close> have "s = [x, y] @ w \<and> [x, y] \<noteq> [] \<and> length [x, y] \<le> 2 \<and>
        list_all c [x, y] \<and> rmatch rs (pre @ [x, y]) w ((n, [x, y]) # caps) = Some m"
      by simp
    then show ?thesis by blast
  next
    case 2
    with \<open>s = x # v\<close> \<open>c x\<close> have "s = [x] @ v \<and> [x] \<noteq> [] \<and> length [x] \<le> 2 \<and>
        list_all c [x] \<and> rmatch rs (pre @ [x]) v ((n, [x]) # caps) = Some m"
      by simp
    then show ?thesis by blast
  qed
qed

lemma rmatch_marker_Some:
  assumes "rmatch (Opt [Group n [Lit l, Cls c]] # rs) pre s caps = Some m"
  shows "\<exists>ms v caps'. s = ms @ v \<and>
           (ms = [] \<and> caps' = caps \<or> (\<exists>x. ms = l @ [x] \<and> c x) \<and> caps' = (n, ms) # caps) \<and>
           rmatch rs (pre @ ms) v caps' = Some m"
proof -
  from rmatch_Opt_Some [OF assms]
  consider "rmatch (Lit l # Cls c # Mark n (length pre) # rs) pre s caps = Some m"
    | "rmatch rs pre s caps = Some m"
    by auto
  then show ?thesis
  proof cases
    case 1
    from rmatch_Lit_Some [OF 1] obtain v where
      2: "s = l @ v" "rmatch (Cls c # Mark n (length pre) # rs) (pre @ l) v caps = Some m"
      by blast
    from rmatch_Cls_Some [OF 2(2)] obtain x w where
      3: "v = x # w" "c x" "rmatch (Mark n (length pre) # rs) ((pre @ l) @ [x]) w caps = Some m"
      by blast
    from 2 3 have "s = (l @ [x]) @ w \<and> (\<exists>y. l @ [x] = l @ [y] \<and> c y) \<and>
        rmatch rs (pre @ (l @ [x])) w ((n, l @ [x]) # caps) = Some m"
      by simp
    then show ?thesis by blast
  next
    case 2
    then have "s = [] @ s \<and> rmatch rs (pre @ []) s caps = Some m" by simp
    then show ?thesis by blast
  qed
qed

lemma rmatch_suffix_Some:
  assumes "rmatch (Opt [Group n [Alt [Lit a] [Lit b]]] # rs) pre s caps = Some m"
  shows "\<exists>suf v caps'. s = suf @ v \<and>
           (suf = [] \<and> caps' = caps \<or> (suf = a \<or> suf = b) \<and> caps' = (n, suf) # caps) \<and>
           rmatch rs (pre @ suf) v caps' = Some m"
proof -
  let ?k = "Mark n (length pre) # rs"
  from rmatch_Opt_Some [OF assms]
  consider "rmatch (Alt [Lit a] [Lit b] # ?k) pre s caps = Some m"
    | "rmatch rs pre s caps = Some m"
    by auto
  then show ?thesis
  proof cases
    case 1
    from rmatch_Alt_Some [OF 1]
    obtain l where l: "l = a \<or> l = b" "rmatch (Lit l # ?k) pre s caps = Some m"
      by auto
    from rmatch_Lit_Some [OF l(2)] obtain v where
      "s = l @ v" "rmatch ?k (pre @ l) v caps = Some m"
      by blast
    with l(1) have "s = l @ v \<and> (l = a \<or> l = b) \<and>
        rmatch rs (pre @ l) v ((n, l) # caps) = Some m"
      by simp
    then show ?thesis by blast
  next
    case 2
    then have "s = [] @ s \<and> rmatch rs (pre @ []) s caps = Some m" by simp
    then show ?thesis by blast
  qed
qed

subsection \<open>What a match of the short-format pattern says about the filename\<close>

lemma short_format_Some:
  assumes "re_match short_format f = Some m"
  shows "\<exists>p ds sep ms e sep' t suf nl.
           f = p @ ''partition'' @ ds @ [sep] @ ms @ e @ [sep'] @ t @ suf @ nl \<and>
           list_all anychar p \<and> ds \<noteq> [] \<and> length ds \<le> 2 \<and> list_all digit ds \<and>
           one_of ''_ '' sep \<and> one_of ''_ '' sep' \<and>
           (ms = [] \<or> ms = ''msdos_'' \<or> ms = ''msdos '') \<and>
           e \<noteq> [] \<and> list_all (none_of ''_ '') e \<and>
           t \<noteq> [] \<and> list_all (none_of ''_. '') t \<and>
           (suf = [] \<or> suf = ''.tar'' \<or> suf = ''.tar.gz'') \<and>
           (nl = [] \<or> nl = [CHR 0x0A]) \<and>
           group m ''msdos'' = (if ms = [] then None else Some ms) \<and>
           group m ''partition_end'' = Some e \<and>
           group m ''fstype'' = Some t"
proof -
  let ?r9 = "[Eol]"
  let ?r8 = "Opt [Group ''5'' [Alt [Lit ''.tar''] [Lit ''.tar.gz'']]] # ?r9"
  let ?r7 = "Group ''fstype'' [Plus (none_of ''_. '')] # ?r8"
  let ?r6 = "Cls (one_of ''_ '') # ?r7"
  let ?r5 = "Group ''partition_end'' [Plus (none_of ''_ '')] # ?r6"
  let ?r4 = "Opt [Group ''msdos'' [Lit ''msdos'', Cls (one_of ''_ '')]] # ?r5"
  let ?r3 = "Cls (one_of ''_ '') # ?r4"
  let ?r2 = "Group ''1'' [Cls digit, Opt [Cls digit]] # ?r3"
  let ?r1 = "Lit ''partition'' # ?r2"
  from assms have "rmatch (Star anychar # ?r1) [] f [] = Some m"
    by (simp only: re_match_def short_format_def)
  from rmatch_Star_Some [OF this] obtain p v1 where
    1: "f = p @ v1" "list_all anychar p" and s1: "rmatch ?r1 ([] @ p) v1 [] = Some m"
    by blast
  from rmatch_Lit_Some [OF s1] obtain v2 where
    2: "v1 = ''partition'' @ v2" and s2: "rmatch ?r2 (([] @ p) @ ''partition'') v2 [] = Some m"
    by blast
  from rmatch_index_Some [OF s2] obtain ds v3 where
    3: "v2 = ds @ v3" "ds \<noteq> []" "length ds \<le> 2" "list_all digit ds" and
    s3: "rmatch ?r3 ((([] @ p) @ ''partition'') @ ds) v3 [(''1'', ds)] = Some m"
    by blast
  from rmatch_Cls_Some [OF s3] obtain sep v4 where
    4: "v3 = sep # v4" "one_of ''_ '' sep" and
    s4: "rmatch ?r4 (((([] @ p) @ ''partition'') @ ds) @ [sep]) v4 [(''1'', ds)] = Some m"
    by blast
  from rmatch_marker_Some [OF s4] obtain ms v5 c5 where
    5: "v4 = ms @ v5"
      "ms = [] \<and> c5 = [(''1'', ds)] \<or>
       (\<exists>x. ms = ''msdos'' @ [x] \<and> one_of ''_ '' x) \<and> c5 = [(''msdos'', ms), (''1'', ds)]" and
    s5: "rmatch ?r5 ((((([] @ p) @ ''partition'') @ ds) @ [sep]) @ ms) v5 c5 = Some m"
    by blast
  from rmatch_Group_Plus_Some [OF s5] obtain e v6 where
    6: "v5 = e @ v6" "e \<noteq> []" "list_all (none_of ''_ '') e" and
    s6: "rmatch ?r6 (((((([] @ p) @ ''partition'') @ ds) @ [sep]) @ ms) @ e) v6
       ((''partition_end'', e) # c5) = Some m"
    by blast
  from rmatch_Cls_Some [OF s6] obtain sep' v7 where
    7: "v6 = sep' # v7" "one_of ''_ '' sep'" and
    s7: "rmatch ?r7 ((((((([] @ p) @ ''partition'') @ ds) @ [sep]) @ ms) @ e) @ [sep']) v7
       ((''partition_end'', e) # c5) = Some m"
    by blast
  from rmatch_Group_Plus_Some [OF s7] obtain t v8 where
    8: "v7 = t @ v8" "t \<noteq> []" "list_all (none_of ''_. '') t" and
    s8: "rmatch ?r8
       (((((((([] @ p) @ ''partition'') @ ds) @ [sep]) @ ms) @ e) @ [sep']) @ t) v8
       ((''fstype'', t) # (''partition_end'', e) # c5) = Some m"
    by blast
  from rmatch_suffix_Some [OF s8] obtain suf v9 c9 where
    9: "v8 = suf @ v9"
      "suf = [] \<and> c9 = (''fstype'', t) # (''partition_end'', e) # c5 \<or>
       (suf = ''.tar'' \<or> suf = ''.tar.gz'') \<and>
       c9 = (''5'', suf) # (''fstype'', t) # (''partition_end'', e) # c5" and
    s9: "rmatch ?r9
       ((((((((([] @ p) @ ''partition'') @ ds) @ [sep]) @ ms) @ e) @ [sep']) @ t) @ suf) v9 c9 = Some m"
    by blast
  from rmatch_Eol_Some [OF s9] have 10: "v9 = [] \<or> v9 = [CHR 0x0A]" and "m = c9"
    by simp_all
  have f: "f = p @ ''partition'' @ ds @ [sep] @ ms @ e @ [sep'] @ t @ suf @ v9"
    by (simp only: 1(1) 2 3(1) 4(1) 5(1) 6(1) 7(1) 8(1) 9(1) append_Cons append_Nil)
  have ms: "ms = [] \<or> ms = ''msdos_'' \<or> ms = ''msdos ''"
    using 5(2) by (auto simp: one_of_def)
  have g1: "group m ''msdos'' = (if ms = [] then None else Some ms)"
    using 5(2) 9(2) \<open>m = c9\<close> by (auto simp: group_def)
  have g2: "group m ''partition_end'' = Some e"
    using 5(2) 9(2) \<open>m = c9\<close> by (auto simp: group_def)
  have g3: "group m ''fstype'' = Some t"
    using 9(2) \<open>m = c9\<close> by (auto simp: group_def)
  from f 1(2) 3(2,3,4) 4(2) 7(2) ms 6(2,3) 8(2,3) 9(2) 10 g1 g2 g3
  show ?thesis by blast
qed

subsection \<open>Filenames that name their index once\<close>

lemma occurrences_append: "occurrences P s \<le> occurrences P (a @ s)"
  by (induction a) auto

lemma occurrences_here: "P s \<Longrightarrow> s \<noteq> [] \<Longrightarrow> 1 \<le> occurrences P s"
  by (cases s) auto

lemma occurrences_two:
  assumes "P (w @ x)" and "w \<noteq> []" and "P x" and "x \<noteq> []"
  shows "2 \<le> occurrences P (a @ w @ x)"
proof -
  from assms(2) obtain y w' where w: "w = y # w'" by (cases w) auto
  have "1 \<le> occurrences P x" using assms(3,4) by (rule occurrences_here)
  also have "\<dots> \<le> occurrences P (w' @ x)" by (rule occurrences_append)
  finally have "2 \<le> occurrences P (w @ x)"
    using assms(1) by (simp add: w)
  also have "\<dots> \<le> occurrences P (a @ w @ x)" by (rule occurrences_append)
  finally show ?thesis .
qed

lemma is_index_nonempty: "is_index s \<Longrightarrow> s \<noteq> []"
  by (auto simp: is_index_def)

lemma is_dd_nonempty: "is_dd s \<Longrightarrow> s \<noteq> []"
  by (auto simp: is_dd_def)

lemma rmatch_index_is_index:
  assumes "rmatch (Lit ''partition'' # Group n (Cls digit # r) # rs) pre x caps = Some m"
  shows "is_index x"
proof -
  from rmatch_Lit_Some [OF assms] obtain v where
    v: "x = ''partition'' @ v" "rmatch (Group n (Cls digit # r) # rs) (pre @ ''partition'') v caps = Some m"
    by blast
  from v(2) have "rmatch (Cls digit # r @ Mark n (length (pre @ ''partition'')) # rs)
      (pre @ ''partition'') v caps = Some m"
    by simp
  from rmatch_Cls_Some [OF this] obtain d v' where "v = d # v'" "digit d"
    by blast
  with v(1) show ?thesis by (simp add: is_index_def)
qed

lemma rmatch_Group_Plus_max:
  assumes "u \<noteq> []" and "list_all c u" and "v = [] \<or> \<not> c (hd v)"
    and "rmatch rs (pre @ u) v ((n, u) # caps) = Some m"
  shows "rmatch (Group n [Plus c] # rs) pre (u @ v) caps = Some m"
proof -
  from assms(1) obtain x u' where u: "u = x # u'" by (cases u) auto
  with assms(2) have x: "c x" and u': "list_all c u'" by simp_all
  have "rmatch (Mark n (length pre) # rs) ((pre @ [x]) @ u') v caps = Some m"
    using assms(4) by (simp add: u)
  then have "rmatch (Star c # Mark n (length pre) # rs) (pre @ [x]) (u' @ v) caps = Some m"
    by (intro rmatch_Star_max u' assms(3))
  then show ?thesis
    by (simp add: u x)
qed

lemma rmatch_index_max:
  assumes "ds \<noteq> []" and "length ds \<le> 2" and "list_all c ds" and "v = [] \<or> \<not> c (hd v)"
    and "rmatch rs (pre @ ds) v ((n, ds) # caps) = Some m"
  shows "rmatch (Group n [Cls c, Opt [Cls c]] # rs) pre (ds @ v) caps = Some m"
proof -
  from assms(1,2) consider d where "ds = [d]" | d d' where "ds = [d, d']"
    by (cases ds; cases "tl ds") auto
  then show ?thesis
  proof cases
    case 1
    have "rmatch (Cls c # Mark n (length pre) # rs) (pre @ [d]) v caps = None"
      using assms(4) by (cases v) auto
    with 1 assms(3,5) show ?thesis by simp
  next
    case 2
    with assms(3,5) show ?thesis by simp
  qed
qed

text \<open>
  The pattern of \<open>get_total_size\<close> on a filename that names its index once: the token
  after the index and one separator.
\<close>

lemma size_short_format_token:
  assumes f: "f = p @ ''partition'' @ ds @ [sep] @ e @ rest"
    and p: "list_all anychar p"
    and ds: "ds \<noteq> []" "length ds \<le> 2" "list_all digit ds"
    and sep: "one_of ''_ '' sep"
    and e: "e \<noteq> []" "list_all (none_of ''_ '') e"
    and rest: "rest = [] \<or> \<not> none_of ''_ '' (hd rest)"
    and once: "occurrences is_index f \<le> 1"
  shows "re_match size_short_format f = Some [(''partition_end'', e), (''1'', ds)]"
proof -
  let ?m = "[(''partition_end'', e), (''1'', ds)]"
  let ?r3 = "[Group ''partition_end'' [Plus (none_of ''_ '')]]"
  let ?r2 = "Cls (one_of ''_ '') # ?r3"
  let ?r1 = "Group ''1'' [Cls digit, Opt [Cls digit]] # ?r2"
  let ?r0 = "Lit ''partition'' # ?r1"
  let ?v = "''partition'' @ ds @ [sep] @ e @ rest"
  have "rmatch [] ((((p @ ''partition'') @ ds) @ [sep]) @ e) rest ?m = Some ?m"
    by simp
  then have "rmatch ?r3 (((p @ ''partition'') @ ds) @ [sep]) (e @ rest) [(''1'', ds)] = Some ?m"
    by (intro rmatch_Group_Plus_max e rest)
  then have "rmatch ?r2 ((p @ ''partition'') @ ds) ([sep] @ e @ rest) [(''1'', ds)] = Some ?m"
    using sep by simp
  moreover have "[sep] @ e @ rest = [] \<or> \<not> digit (hd ([sep] @ e @ rest))"
    using sep by (auto simp: one_of_def digit_def)
  ultimately
  have "rmatch ?r1 (p @ ''partition'') (ds @ [sep] @ e @ rest) [] = Some ?m"
    by (intro rmatch_index_max ds)
  then have here: "rmatch ?r0 (p @ []) ?v [] = Some ?m"
    by simp
  have later: "rmatch ?r0 (p @ w) x [] = None"
    if "w \<noteq> []" and "?v = w @ x" for w x
  proof (rule ccontr)
    assume "rmatch ?r0 (p @ w) x [] \<noteq> None"
    then obtain m' where "rmatch ?r0 (p @ w) x [] = Some m'" by auto
    then have hx: "is_index x" by (rule rmatch_index_is_index)
    have hw: "is_index (w @ x)"
      using ds(1,3) that(2) [symmetric] by (cases ds) (auto simp: is_index_def)
    have "2 \<le> occurrences is_index (p @ w @ x)"
      by (rule occurrences_two [OF hw that(1) hx is_index_nonempty [OF hx]])
    with once f that(2) show False by simp
  qed
  have "rmatch (Star anychar # ?r0) [] (p @ ?v) [] = Some ?m"
  proof (rule rmatch_Star_pick [OF p])
    show "rmatch ?r0 ([] @ p) ?v [] = Some ?m" using here by simp
    fix w x assume "w \<noteq> []" "?v = w @ x" "list_all anychar w"
    then have "rmatch ?r0 (p @ w) x [] = None" by (intro later)
    then show "rmatch ?r0 ([] @ p @ w) x [] = None" by simp
  qed
  then show ?thesis
    by (simp add: re_match_def size_short_format_def f)
qed

subsection \<open>The groups of a match\<close>

lemma top_groups_append: "top_groups (a @ b) = top_groups a \<union> top_groups b"
  by (induction a rule: top_groups.induct) auto

lemma rmatch_groups:
  "rmatch rs pre s caps = Some m \<Longrightarrow> fst ` set caps \<union> top_groups rs \<subseteq> fst ` set m"
proof (induction rs pre s caps arbitrary: m rule: rmatch.induct)
  case (1 pre s caps)
  then show ?case by simp
next
  case (2 l rs pre s caps)
  then show ?case by (simp split: if_splits)
next
  case (3 c rs pre s caps)
  then show ?case by (simp split: list.splits if_splits)
next
  case (4 c rs pre s caps)
  show ?case
  proof (cases s)
    case Nil
    with "4.prems" have "rmatch rs pre s caps = Some m" by simp
    from "4.IH"(1) [OF Nil this] show ?thesis by simp
  next
    case (Cons x xs)
    show ?thesis
    proof (cases "c x")
      case True
      show ?thesis
      proof (cases "rmatch (Star c # rs) (pre @ [x]) xs caps")
        case None
        with "4.prems" Cons True have "rmatch rs pre s caps = Some m" by simp
        from "4.IH"(3) [OF Cons True None this] show ?thesis by simp
      next
        case (Some m')
        with "4.prems" Cons True have "rmatch (Star c # rs) (pre @ [x]) xs caps = Some m"
          by simp
        from "4.IH"(2) [OF Cons True this] show ?thesis by simp
      qed
    next
      case False
      with "4.prems" Cons have "rmatch rs pre s caps = Some m" by simp
      from "4.IH"(4) [OF Cons False this] show ?thesis by simp
    qed
  qed
next
  case (5 c rs pre s caps)
  then show ?case by simp
next
  case (6 r rs pre s caps)
  show ?case
  proof (cases "rmatch (r @ rs) pre s caps")
    case None
    with "6.prems" have "rmatch rs pre s caps = Some m" by simp
    from "6.IH"(2) [OF None this] show ?thesis by simp
  next
    case (Some m')
    with "6.prems" have "rmatch (r @ rs) pre s caps = Some m" by simp
    from "6.IH"(1) [OF this] show ?thesis by (auto simp: top_groups_append)
  qed
next
  case (7 a b rs pre s caps)
  show ?case
  proof (cases "rmatch (a @ rs) pre s caps")
    case None
    with "7.prems" have "rmatch (b @ rs) pre s caps = Some m" by simp
    from "7.IH"(2) [OF None this] show ?thesis by (auto simp: top_groups_append)
  next
    case (Some m')
    with "7.prems" have "rmatch (a @ rs) pre s caps = Some m" by simp
    from "7.IH"(1) [OF this] show ?thesis by (auto simp: top_groups_append)
  qed
next
  case (8 n r rs pre s caps)
  then show ?case by (auto simp: top_groups_append)
next
  case (9 n k rs pre s caps)
  then show ?case by auto
next
  case (10 rs pre s caps)
  then show ?case by (simp split: if_splits)
next
  case (11 rs pre s caps)
  then show ?case by (simp split: if_splits)
qed

lemma re_match_group:
  assumes "re_match rs s = Some m" and "n \<in> top_groups rs"
  shows "\<exists>t. group m n = Some t"
proof -
  from assms(1) have "top_groups rs \<subseteq> fst ` set m"
    using rmatch_groups [of rs "[]" s "[]" m] by (simp add: re_match_def)
  with assms(2) have "n \<in> fst ` set m" by blast
  then have "map_of m n \<noteq> None"
    by (simp add: map_of_eq_None_iff)
  then show ?thesis by (auto simp: group_def)
qed

text \<open>Every group that the code reads without a test is set by a successful match.\<close>

lemma groups_are_set:
  "re_match size_format s = Some m \<Longrightarrow> \<exists>t u. group m ''1'' = Some t \<and> group m ''2'' = Some u"
  "re_match long_format s = Some m \<Longrightarrow> \<exists>t. group m ''parted'' = Some t"
  "re_match long_format_fstype s = Some m \<Longrightarrow> \<exists>t. group m ''fstype'' = Some t"
  "re_match short_format s = Some m \<Longrightarrow>
     \<exists>t u. group m ''partition_end'' = Some t \<and> group m ''fstype'' = Some u"
  "re_match size_long_format s = Some m \<Longrightarrow> \<exists>t. group m ''size_all'' = Some t"
  "re_match size_short_format s = Some m \<Longrightarrow> \<exists>t. group m ''partition_end'' = Some t"
  by (auto intro!: re_match_group simp: pat_defs)

subsection \<open>The script fragment of a long-format filename\<close>

lemma rmatch_Star_complete:
  "list_all c u \<Longrightarrow> rmatch rs (pre @ u) v caps \<noteq> None \<Longrightarrow>
   rmatch (Star c # rs) pre (u @ v) caps \<noteq> None"
proof (induction u arbitrary: pre)
  case Nil
  then show ?case
    by (cases v) (auto split: option.splits)
next
  case (Cons a u)
  have "rmatch (Star c # rs) (pre @ [a]) (u @ v) caps \<noteq> None"
    by (rule Cons.IH) (use Cons.prems in simp_all)
  with Cons.prems(1) show ?case by auto
qed

lemma rmatch_Star_Some_longest:
  "rmatch (Star c # rs) pre s caps = Some m \<Longrightarrow>
   \<exists>u v. s = u @ v \<and> list_all c u \<and> rmatch rs (pre @ u) v caps = Some m \<and>
     (\<forall>w x. w \<noteq> [] \<and> v = w @ x \<and> list_all c w \<longrightarrow> rmatch rs (pre @ u @ w) x caps = None)"
proof (induction s arbitrary: pre)
  case Nil
  then show ?case by simp
next
  case (Cons y ys)
  show ?case
  proof (cases "c y")
    case True
    show ?thesis
    proof (cases "rmatch (Star c # rs) (pre @ [y]) ys caps")
      case None
      with Cons.prems True have here: "rmatch rs pre (y # ys) caps = Some m"
        by simp
      have "rmatch rs (pre @ w) x caps = None"
        if "w \<noteq> []" "y # ys = w @ x" "list_all c w" for w x
      proof (rule ccontr)
        assume ne: "rmatch rs (pre @ w) x caps \<noteq> None"
        from that(1,2) obtain w' where w: "w = y # w'" "ys = w' @ x"
          by (cases w) auto
        with that(3) have "list_all c w'" by simp
        moreover from ne w have "rmatch rs ((pre @ [y]) @ w') x caps \<noteq> None" by simp
        ultimately have "rmatch (Star c # rs) (pre @ [y]) (w' @ x) caps \<noteq> None"
          by (rule rmatch_Star_complete)
        with None w show False by simp
      qed
      with here have "y # ys = [] @ (y # ys) \<and> list_all c [] \<and>
          rmatch rs (pre @ []) (y # ys) caps = Some m \<and>
          (\<forall>w x. w \<noteq> [] \<and> y # ys = w @ x \<and> list_all c w \<longrightarrow>
             rmatch rs (pre @ [] @ w) x caps = None)"
        by simp
      then show ?thesis by blast
    next
      case (Some m')
      with Cons.prems True have "rmatch (Star c # rs) (pre @ [y]) ys caps = Some m"
        by simp
      from Cons.IH [OF this] obtain u v where
        uv: "ys = u @ v" "list_all c u" "rmatch rs ((pre @ [y]) @ u) v caps = Some m"
          "\<forall>w x. w \<noteq> [] \<and> v = w @ x \<and> list_all c w \<longrightarrow>
             rmatch rs ((pre @ [y]) @ u @ w) x caps = None"
        by blast
      with True have "y # ys = (y # u) @ v \<and> list_all c (y # u) \<and>
          rmatch rs (pre @ (y # u)) v caps = Some m \<and>
          (\<forall>w x. w \<noteq> [] \<and> v = w @ x \<and> list_all c w \<longrightarrow>
             rmatch rs (pre @ (y # u) @ w) x caps = None)"
        by simp
      then show ?thesis by blast
    qed
  next
    case False
    with Cons.prems have here: "rmatch rs pre (y # ys) caps = Some m"
      by simp
    have "rmatch rs (pre @ w) x caps = None"
      if "w \<noteq> []" "y # ys = w @ x" "list_all c w" for w x
      using that False by (cases w) auto
    with here have "y # ys = [] @ (y # ys) \<and> list_all c [] \<and>
        rmatch rs (pre @ []) (y # ys) caps = Some m \<and>
        (\<forall>w x. w \<noteq> [] \<and> y # ys = w @ x \<and> list_all c w \<longrightarrow>
           rmatch rs (pre @ [] @ w) x caps = None)"
      by simp
    then show ?thesis by blast
  qed
qed

text \<open>
  The group \<^verbatim>\<open>parted\<close> of the long format takes the whole rest of the filename, up to
  a final newline: its greedy \<^verbatim>\<open>.*\<close> leaves nothing to the suffix group after it.
\<close>

lemma long_format_Some:
  assumes "re_match long_format f = Some m"
  shows "\<exists>p t nl. f = p @ ''-- parted '' @ t @ nl \<and> (nl = [] \<or> nl = [CHR 0x0A]) \<and>
           group m ''parted'' = Some t"
proof -
  let ?r7 = "[Eol]"
  let ?r6 = "Opt [Group ''3'' [Alt [Lit ''.tar''] [Lit ''.tar.gz'']]] # ?r7"
  let ?r5 = "Group ''parted'' [Star anychar] # ?r6"
  let ?r4 = "Lit ''-- parted '' # ?r5"
  let ?r3 = "Star anychar # ?r4"
  let ?r2 = "Group ''1'' [Cls digit, Opt [Cls digit]] # ?r3"
  let ?r1 = "Lit ''partition'' # ?r2"
  from assms have "rmatch (Star anychar # ?r1) [] f [] = Some m"
    by (simp only: re_match_def long_format_def)
  from rmatch_Star_Some [OF this] obtain p v1 where
    1: "f = p @ v1" and s1: "rmatch ?r1 ([] @ p) v1 [] = Some m"
    by blast
  from rmatch_Lit_Some [OF s1] obtain v2 where
    2: "v1 = ''partition'' @ v2" and s2: "rmatch ?r2 (([] @ p) @ ''partition'') v2 [] = Some m"
    by blast
  from rmatch_index_Some [OF s2] obtain ds v3 where
    3: "v2 = ds @ v3" and
    s3: "rmatch ?r3 ((([] @ p) @ ''partition'') @ ds) v3 [(''1'', ds)] = Some m"
    by blast
  from rmatch_Star_Some [OF s3] obtain q v4 where
    4: "v3 = q @ v4" and
    s4: "rmatch ?r4 (((([] @ p) @ ''partition'') @ ds) @ q) v4 [(''1'', ds)] = Some m"
    by blast
  define pre where "pre = ((((([] @ p) @ ''partition'') @ ds) @ q) @ ''-- parted '')"
  from rmatch_Lit_Some [OF s4] obtain v5 where
    5: "v4 = ''-- parted '' @ v5" and
    s5': "rmatch ?r5 ((((([] @ p) @ ''partition'') @ ds) @ q) @ ''-- parted '') v5 [(''1'', ds)] =
      Some m"
    by blast
  have s5: "rmatch ?r5 pre v5 [(''1'', ds)] = Some m"
    using s5' by (simp only: pre_def)
  let ?k = "Mark ''parted'' (length pre) # ?r6"
  have "rmatch ?r5 pre v5 [(''1'', ds)] = rmatch (Star anychar # ?k) pre v5 [(''1'', ds)]"
    by (simp only: rmatch.simps(8) append_Cons append_Nil)
  with s5 have "rmatch (Star anychar # ?k) pre v5 [(''1'', ds)] = Some m"
    by simp
  from rmatch_Star_Some_longest [OF this] obtain t v6 where
    6: "v5 = t @ v6" and s6: "rmatch ?k (pre @ t) v6 [(''1'', ds)] = Some m" and
    longest: "\<And>w x. w \<noteq> [] \<Longrightarrow> v6 = w @ x \<Longrightarrow> list_all anychar w \<Longrightarrow>
       rmatch ?k (pre @ t @ w) x [(''1'', ds)] = None"
    by blast
  have "rmatch ?k (pre @ t) v6 [(''1'', ds)] =
      rmatch ?r6 (pre @ t) v6 [(''parted'', drop (length pre) (pre @ t)), (''1'', ds)]"
    by (simp only: rmatch.simps(9))
  moreover have "drop (length pre) (pre @ t) = t"
    by simp
  ultimately have "rmatch ?r6 (pre @ t) v6 [(''parted'', t), (''1'', ds)] = Some m"
    using s6 by simp
  from rmatch_suffix_Some [OF this] obtain suf v7 c7 where
    7: "v6 = suf @ v7"
      "suf = [] \<and> c7 = [(''parted'', t), (''1'', ds)] \<or>
       (suf = ''.tar'' \<or> suf = ''.tar.gz'') \<and> c7 = [(''3'', suf), (''parted'', t), (''1'', ds)]" and
    s7: "rmatch ?r7 ((pre @ t) @ suf) v7 c7 = Some m"
    by blast
  from rmatch_Eol_Some [OF s7] have 8: "v7 = [] \<or> v7 = [CHR 0x0A]" and m: "m = c7"
    by simp_all
  have suf: "suf = []"
  proof (rule ccontr)
    assume "suf \<noteq> []"
    with 7(2) have tar: "suf = ''.tar'' \<or> suf = ''.tar.gz''" by auto
    then have "list_all anychar suf" by (auto simp: anychar_def)
    with \<open>suf \<noteq> []\<close> 7(1) have "rmatch ?k (pre @ t @ suf) v7 [(''1'', ds)] = None"
      by (intro longest)
    moreover have "rmatch ?k (pre @ t @ suf) v7 [(''1'', ds)] \<noteq> None"
      using 8 by auto
    ultimately show False by simp
  qed
  with 7(2) m have "group m ''parted'' = Some t"
    by (auto simp: group_def)
  moreover have "f = (p @ ''partition'' @ ds @ q) @ ''-- parted '' @ t @ v7"
    using 1 2 3 4 5 6 7(1) suf by simp
  ultimately show ?thesis using 8 by blast
qed

section \<open>The loops of the two builders\<close>

lemma short_loop_table:
  assumes "\<forall>f\<in>set fs. re_match short_format f \<noteq> None"
    and "files = done @ fs"
    and "fs \<noteq> [] \<longrightarrow> pe = (if done = [] then ''1MiB'' else end_token (last done))"
  shows "short_loop (length files - 1) (length done) pe fs acc =
         Inr (acc @ map (table_descriptor files) [length done..<length files])"
  using assms
proof (induction fs arbitrary: "done" pe acc)
  case Nil
  then show ?case by simp
next
  case (Cons f fs)
  from Cons.prems(1) obtain m where m: "re_match short_format f = Some m"
    by auto
  let ?i = "length done"
  let ?pe2 = "if length files - 1 = ?i then ''100%'' else end_token f"
  have fi: "files ! ?i = f"
    using Cons.prems(2) by simp
  have prev: "done \<noteq> [] \<Longrightarrow> files ! (?i - 1) = last done"
    using Cons.prems(2) by (simp add: nth_append last_conv_nth)
  have pe: "pe = (if ?i = 0 then ''1MiB'' else end_token (files ! (?i - 1)))"
    using Cons.prems(3) prev by auto
  have d: "table_descriptor files ?i =
      \<lparr>filename = f,
       parted =
         (if ?i = 0 then
            ''unit s mklabel '' @ (if truthy (group m ''msdos'') then ''msdos'' else ''gpt'') @
            '' mkpart primary '' @ the (group m ''fstype'') @ '' '' @ pe @ '' '' @ ?pe2 @
            '' set 1 boot on''
          else ''mkpart primary '' @ the (group m ''fstype'') @ '' '' @ pe @ '' '' @ ?pe2),
       fstype = the (group m ''fstype'')\<rparr>"
    unfolding table_descriptor_def Let_def fi pe [symmetric]
    by (simp add: end_token_def fstype_token_def msdos_marker_def m)
  have step: "short_loop (length files - 1) ?i pe (f # fs) acc =
      short_loop (length files - 1) (Suc ?i) ?pe2 fs (acc @ [table_descriptor files ?i])"
    unfolding d by (simp add: m Let_def end_token_def)
  have "short_loop (length files - 1) (length (done @ [f])) ?pe2 fs
          (acc @ [table_descriptor files ?i]) =
        Inr ((acc @ [table_descriptor files ?i]) @
             map (table_descriptor files) [length (done @ [f])..<length files])"
  proof (rule Cons.IH)
    show "\<forall>f\<in>set fs. re_match short_format f \<noteq> None"
      using Cons.prems(1) by simp
    show "files = (done @ [f]) @ fs"
      using Cons.prems(2) by simp
    show "fs \<noteq> [] \<longrightarrow>
        ?pe2 = (if done @ [f] = [] then ''1MiB'' else end_token (last (done @ [f])))"
      using Cons.prems(2) by auto
  qed
  moreover have "?i < length files"
    using Cons.prems(2) by simp
  then have "[?i..<length files] = ?i # [Suc ?i..<length files]"
    by (rule upt_conv_Cons)
  ultimately show ?case
    using step by simp
qed

lemma short_builder_table:
  assumes "files \<noteq> []" and "\<forall>f\<in>set files. re_match short_format f \<noteq> None"
  shows "try_get_partitions_short_format files =
         Inr (map (table_descriptor files) [0..<length files])"
proof -
  from assms(1) obtain f0 fs where files: "files = f0 # fs"
    by (cases files) auto
  have "short_loop (length files - 1) (length ([] :: string list)) first_partition_start files [] =
      Inr ([] @ map (table_descriptor files) [length ([] :: string list)..<length files])"
    by (rule short_loop_table) (use assms(2) in \<open>simp_all add: first_partition_start_def\<close>)
  then show ?thesis
    using assms(2) files by (simp add: try_get_partitions_short_format_def)
qed

lemma long_loop_find:
  "long_loop fs acc =
     (case find (\<lambda>f. \<not> long_ok f) fs of
        Some f \<Rightarrow> Inl (PartitionParseException f)
      | None \<Rightarrow> Inr (acc @ map long_descriptor fs))"
proof (induction fs arbitrary: acc)
  case Nil
  then show ?case by simp
next
  case (Cons f fs)
  show ?case
  proof (cases "long_ok f")
    case True
    then obtain m m' where m: "re_match long_format f = Some m"
      and m': "re_match long_format_fstype (the (group m ''parted'')) = Some m'"
      by (auto simp: long_ok_def parted_text_def)
    have "long_descriptor f =
        \<lparr>filename = f, parted = the (group m ''parted''), fstype = the (group m' ''fstype'')\<rparr>"
      by (simp add: long_descriptor_def parted_text_def m m')
    then have step: "long_loop (f # fs) acc = long_loop fs (acc @ [long_descriptor f])"
      by (simp add: m m' Let_def)
    show ?thesis
      unfolding step Cons.IH using True by (simp split: option.splits)
  next
    case False
    then have stop: "long_loop (f # fs) acc = Inl (PartitionParseException f)"
      by (auto simp: long_ok_def parted_text_def Let_def split: option.splits)
    show ?thesis
      unfolding stop using False by simp
  qed
qed

lemma short_loop_find_Some:
  "find (\<lambda>f. re_match short_format f = None) fs = Some g \<Longrightarrow>
   short_loop last_index i pe fs acc = Inl (PartitionParseException g)"
proof (induction fs arbitrary: i pe acc)
  case Nil
  then show ?case by simp
next
  case (Cons f fs)
  show ?case
  proof (cases "re_match short_format f")
    case None
    with Cons.prems show ?thesis by simp
  next
    case (Some m)
    with Cons.prems have "find (\<lambda>f. re_match short_format f = None) fs = Some g"
      by simp
    then show ?thesis
      by (simp add: Some Let_def Cons.IH)
  qed
qed


section \<open>The size pattern on a number followed by a unit\<close>

lemma float_of_string_shape:
  assumes "float_of_string num = Inr x"
  shows "num \<noteq> [] \<and> list_all digit_or_dot num"
proof -
  let ?ip = "takeWhile digit num" and ?r = "dropWhile digit num"
  have num: "num = ?ip @ ?r" by simp
  have ip: "list_all digit_or_dot ?ip"
    by (auto simp: list_all_iff digit_or_dot_def dest: set_takeWhileD)
  show ?thesis
  proof (cases "?r = []")
    case True
    with assms have "?ip \<noteq> []"
      by (auto simp: float_of_string_def Let_def split: if_splits)
    moreover from True have "?ip = num" by (metis num append_Nil2)
    ultimately show ?thesis
      by (auto simp: list_all_iff digit_or_dot_def)
  next
    case False
    with assms have r: "hd ?r = CHR ''.''" "list_all digit (tl ?r)"
      by (auto simp: float_of_string_def Let_def split: if_splits)
    from False have "?r = hd ?r # tl ?r" by simp
    with r have "list_all digit_or_dot ?r"
      by (metis (mono_tags, lifting) digit_or_dot_def list.pred_inject(2) list.pred_mono_strong)
    with ip have "list_all digit_or_dot (?ip @ ?r)"
      by (simp only: list_all_append)
    then have "list_all digit_or_dot num"
      by (simp only: takeWhile_dropWhile_id)
    moreover from False have "num \<noteq> []" by auto
    ultimately show ?thesis by simp
  qed
qed

lemma lower_char_changes: "lower_char c \<noteq> c \<Longrightarrow> c \<in> set upper_chars"
  unfolding lower_char_def
  by (auto split: option.splits dest!: map_of_SomeD set_zip_leftD)

lemma not_upper_chars: "set (CHR 0x0A # ''0123456789.'') \<inter> set upper_chars = {}"
  by (simp add: upper_chars_def)

lemma lower_char_fixed:
  "c \<in> set (CHR 0x0A # ''0123456789.'') \<Longrightarrow> lower_char c = c"
  using lower_char_changes not_upper_chars by blast

lemma unit_letters:
  "map_of units u = Some k \<Longrightarrow> set u \<subseteq> set ''sbkmgti''"
  by (auto simp: units_def split: if_splits)

lemma unit_shape:
  assumes "map_of units (lower unit) = Some k"
  shows "list_all anychar unit \<and> (unit = [] \<or> \<not> digit_or_dot (hd unit))"
proof -
  have c: "anychar c \<and> \<not> digit_or_dot c" if "c \<in> set unit" for c
  proof (rule ccontr)
    assume "\<not> (anychar c \<and> \<not> digit_or_dot c)"
    then have mem: "c \<in> set (CHR 0x0A # ''0123456789.'')"
      by (auto simp: anychar_def digit_or_dot_def digit_def)
    then have "lower_char c = c" by (rule lower_char_fixed)
    moreover from that have "lower_char c \<in> set (lower unit)"
      by (simp add: lower_def)
    ultimately have "c \<in> set ''sbkmgti''"
      using unit_letters [OF assms] by auto
    with mem show False by auto
  qed
  then have "list_all anychar unit" by (simp add: list_all_iff)
  moreover have "unit = [] \<or> \<not> digit_or_dot (hd unit)"
    using c by (cases unit) auto
  ultimately show ?thesis ..
qed

lemma size_format_match:
  assumes "num \<noteq> []" and "list_all digit_or_dot num"
    and "list_all anychar unit" and "unit = [] \<or> \<not> digit_or_dot (hd unit)"
  shows "re_match size_format (num @ unit) = Some [(''2'', unit), (''1'', num)]"
proof -
  from assms(1) obtain x u where num: "num = x # u" by (cases num) auto
  with assms(2) have x: "digit_or_dot x" and u: "list_all digit_or_dot u" by simp_all
  let ?k2 = "[Mark ''2'' (length num), Eol]"
  let ?k1 = "[Mark ''1'' 0, Group ''2'' [Star anychar], Eol]"
  have "rmatch ?k2 (num @ unit) [] [(''1'', num)] = Some [(''2'', unit), (''1'', num)]"
    by simp
  then have "rmatch (Star anychar # ?k2) num (unit @ []) [(''1'', num)] =
      Some [(''2'', unit), (''1'', num)]"
    by (intro rmatch_Star_max assms(3)) simp_all
  then have "rmatch ?k1 ([x] @ u) unit [] = Some [(''2'', unit), (''1'', num)]"
    by (simp add: num)
  then have "rmatch (Star digit_or_dot # ?k1) [x] (u @ unit) [] =
      Some [(''2'', unit), (''1'', num)]"
    by (intro rmatch_Star_max u assms(4))
  then show ?thesis
    by (simp add: re_match_def size_format_def num x)
qed

lemma parse_size_number_unit:
  assumes "float_of_string num = Inr x" and "map_of units (lower unit) = Some k"
  shows "parse_size (num @ unit) = int_of_double (fmul x k)"
proof -
  from float_of_string_shape [OF assms(1)] unit_shape [OF assms(2)]
  have "re_match size_format (num @ unit) = Some [(''2'', unit), (''1'', num)]"
    by (intro size_format_match) simp_all
  then show ?thesis
    by (simp add: parse_size_def group_def assms)
qed

lemma parse_size_5_5: "parse_size ''5.5'' = Inr 5500000"
  by (simp add: size_defs build_defs pat_defs cls_defs)
lemma parse_size_100KB: "parse_size ''100KB'' = Inr 100000"
  by (simp add: size_defs build_defs pat_defs cls_defs)
lemma parse_size_1KiB: "parse_size ''1KiB'' = Inr 1024"
  by (simp add: size_defs build_defs pat_defs cls_defs)
lemma parse_size_1MB: "parse_size ''1MB'' = Inr 1000000"
  by (simp add: size_defs build_defs pat_defs cls_defs)
lemma parse_size_1MiB: "parse_size ''1MiB'' = Inr 1048576"
  by (simp add: size_defs build_defs pat_defs cls_defs)
lemma parse_size_1_5MiB: "parse_size ''1.5MiB'' = Inr 1572864"
  by (simp add: size_defs build_defs pat_defs cls_defs)
lemma parse_size_1_75GiB: "parse_size ''1.75GiB'' = Inr 1879048192"
  by (simp add: size_defs build_defs pat_defs cls_defs)
lemma parse_size_1_001KB: "parse_size ''1.001KB'' = Inr 1000"
  by (simp add: size_defs build_defs pat_defs cls_defs)

subsection \<open>Numbers that are doubles\<close>

lemma bitlen_bounds: "0 < n \<Longrightarrow> 2 ^ (bitlen n - 1) \<le> n \<and> n < 2 ^ bitlen n"
proof (induction n rule: bitlen.induct)
  case (1 n)
  show ?case
  proof (cases "n div 2 = 0")
    case True
    with "1.prems" have "n = 1" by linarith
    then show ?thesis by (simp add: bitlen_Suc0)
  next
    case False
    then have "0 < n div 2" by simp
    with "1.IH" "1.prems" have ih: "2 ^ (bitlen (n div 2) - 1) \<le> n div 2" "n div 2 < 2 ^ bitlen (n div 2)"
      by simp_all
    have b: "bitlen n = Suc (bitlen (n div 2))"
      using "1.prems" by (subst bitlen.simps) simp
    have pos: "0 < bitlen (n div 2)"
      using False by (subst bitlen.simps) simp
    then have "(2::nat) ^ bitlen (n div 2) = 2 * 2 ^ (bitlen (n div 2) - 1)"
      by (cases "bitlen (n div 2)") simp_all
    with ih have "2 ^ bitlen (n div 2) \<le> 2 * (n div 2)" by simp
    also have "\<dots> \<le> n" by simp
    finally have lo: "2 ^ (bitlen n - 1) \<le> n" by (simp add: b)
    from ih(2) have "n < 2 * 2 ^ bitlen (n div 2)" by linarith
    then have "n < 2 ^ bitlen n" by (simp add: b)
    with lo show ?thesis ..
  qed
qed

lemma bitlen_unique:
  assumes "2 ^ k \<le> n" and "n < 2 ^ Suc k"
  shows "bitlen n = Suc k"
proof -
  from assms(1) have pos: "0 < n"
    by (metis less_le_trans zero_less_numeral zero_less_power)
  from bitlen_bounds [OF pos] have b: "2 ^ (bitlen n - 1) \<le> n" "n < 2 ^ bitlen n"
    by simp_all
  have "k < bitlen n"
  proof (rule ccontr)
    assume "\<not> k < bitlen n"
    then have "(2::nat) ^ bitlen n \<le> 2 ^ k" by (simp add: power_increasing)
    with b(2) assms(1) show False by linarith
  qed
  moreover have "bitlen n - 1 < Suc k"
  proof (rule ccontr)
    assume "\<not> bitlen n - 1 < Suc k"
    then have "(2::nat) ^ Suc k \<le> 2 ^ (bitlen n - 1)" by (intro power_increasing) simp_all
    with b(1) assms(2) show False by linarith
  qed
  ultimately show ?thesis by linarith
qed

lemma bitlen_shift:
  assumes "0 < n"
  shows "bitlen (n * 2 ^ j) = bitlen n + j"
proof -
  from bitlen_bounds [OF assms] have b: "2 ^ (bitlen n - 1) \<le> n" "n < 2 ^ bitlen n"
    by simp_all
  have pos: "0 < bitlen n"
    using assms by (subst bitlen.simps) simp
  have "2 ^ (bitlen n - 1 + j) \<le> n * 2 ^ j"
    using b(1) by (simp add: power_add)
  moreover have "n * 2 ^ j < 2 ^ Suc (bitlen n - 1 + j)"
  proof -
    have "n * 2 ^ j < 2 ^ bitlen n * 2 ^ j" using b(2) by simp
    also have "\<dots> = 2 ^ Suc (bitlen n - 1 + j)"
      using pos by (simp add: power_add [symmetric])
    finally show ?thesis .
  qed
  ultimately have "bitlen (n * 2 ^ j) = Suc (bitlen n - 1 + j)"
    by (rule bitlen_unique)
  with pos show ?thesis by simp
qed

lemma bitlen_pow2: "bitlen (2 ^ j) = Suc j"
  by (rule bitlen_unique) simp_all

text \<open>
  A whole number below \<open>2 ^ 53\<close>, given as a fraction over a power of two, is a double:
  rounding leaves it as it is.
\<close>

lemma round_double_exact:
  assumes "0 < N" and "N < 2 ^ 53"
  shows "round_double (N * 2 ^ j) (2 ^ j) =
         Finite (N * 2 ^ (53 - bitlen N)) (int (bitlen N) - 53)"
proof -
  let ?L = "bitlen N"
  from bitlen_bounds [OF assms(1)] have b: "2 ^ (?L - 1) \<le> N" "N < 2 ^ ?L"
    by simp_all
  have pos: "0 < ?L"
    using assms(1) by (subst bitlen.simps) simp
  have le: "?L \<le> 53"
  proof (rule ccontr)
    assume "\<not> ?L \<le> 53"
    then have "(2::nat) ^ 53 \<le> 2 ^ (?L - 1)" by (intro power_increasing) simp_all
    with b(1) assms(2) show False by linarith
  qed
  have d: "int (bitlen (N * 2 ^ j)) - int (bitlen ((2::nat) ^ j)) = int ?L - 1"
    by (simp add: bitlen_shift [OF assms(1)] bitlen_pow2)
  have ge: "ge_pow2 (N * 2 ^ j) (2 ^ j) (int ?L - 1)"
  proof -
    have "nat (int ?L - 1) = ?L - 1" by simp
    moreover have "(2::nat) ^ j * 2 ^ (?L - 1) \<le> N * 2 ^ j"
      using b(1) by (simp add: mult.commute)
    ultimately show ?thesis
      using pos by (simp add: ge_pow2_def)
  qed
  have e: "max (int ?L - 1 - 52) (- 1074) = int ?L - 53"
    by simp
  have neg: "\<not> 0 \<le> int ?L - 53 \<or> ?L = 53"
    using le by linarith
  have k: "nat (- (int ?L - 53)) = 53 - ?L"
    by simp
  have m: "(if 0 \<le> int ?L - 53 then round_half_even (N * 2 ^ j) (2 ^ j * 2 ^ nat (int ?L - 53))
            else round_half_even (N * 2 ^ j * 2 ^ nat (- (int ?L - 53))) (2 ^ j)) =
           N * 2 ^ (53 - ?L)"
  proof (cases "?L = 53")
    case True
    then show ?thesis by (simp add: round_half_even_def Let_def)
  next
    case False
    with le have "\<not> 0 \<le> int ?L - 53" by linarith
    moreover have "N * 2 ^ j * 2 ^ (53 - ?L) = (N * 2 ^ (53 - ?L)) * 2 ^ j"
      by (simp add: mult.assoc mult.commute)
    ultimately show ?thesis
      by (simp only: if_False k round_half_even_def Let_def) simp
  qed
  have bm: "bitlen (N * 2 ^ (53 - ?L)) = 53"
    using le by (simp add: bitlen_shift [OF assms(1)])
  have "N * 2 ^ j \<noteq> 0" using assms(1) by simp
  then show ?thesis
    unfolding round_double_def Let_def d
    using ge le by (simp only: if_False if_True e m bm) simp
qed


lemma int_of_double_exact:
  assumes "0 < M" and "M < 2 ^ 53"
  shows "int_of_double (Finite (M * 2 ^ (53 - bitlen M)) (int (bitlen M) - 53)) = Inr (int M)"
proof (cases "bitlen M = 53")
  case True
  then show ?thesis by (simp add: int_of_double_def)
next
  case False
  from bitlen_bounds [OF assms(1)] have "2 ^ (bitlen M - 1) \<le> M" by simp
  have "bitlen M \<le> 53"
  proof (rule ccontr)
    assume "\<not> bitlen M \<le> 53"
    then have "(2::nat) ^ 53 \<le> 2 ^ (bitlen M - 1)" by (intro power_increasing) simp_all
    with \<open>2 ^ (bitlen M - 1) \<le> M\<close> assms(2) show False by linarith
  qed
  with False have "\<not> 0 \<le> int (bitlen M) - 53" "nat (- (int (bitlen M) - 53)) = 53 - bitlen M"
    by simp_all
  then show ?thesis by (simp add: int_of_double_def)
qed

lemma fmul_exact:
  assumes "0 < N" and "0 < k" and "N * k < 2 ^ 53"
  shows "fmul (Finite (N * 2 ^ (53 - bitlen N)) (int (bitlen N) - 53)) k =
         Finite (N * k * 2 ^ (53 - bitlen (N * k))) (int (bitlen (N * k)) - 53)"
proof -
  have Nk: "0 < N * k" using assms(1,2) by simp
  have "N \<le> N * k" using assms(2) by simp
  with assms(3) have N: "N < 2 ^ 53" by linarith
  from bitlen_bounds [OF assms(1)] have "2 ^ (bitlen N - 1) \<le> N" by simp
  have le: "bitlen N \<le> 53"
  proof (rule ccontr)
    assume "\<not> bitlen N \<le> 53"
    then have "(2::nat) ^ 53 \<le> 2 ^ (bitlen N - 1)" by (intro power_increasing) simp_all
    with \<open>2 ^ (bitlen N - 1) \<le> N\<close> N show False by linarith
  qed
  let ?j = "53 - bitlen N"
  have arr: "N * 2 ^ ?j * k = N * k * 2 ^ ?j"
    by (simp add: mult.assoc mult.commute)
  show ?thesis
  proof (cases "bitlen N = 53")
    case True
    then have "fmul (Finite (N * 2 ^ ?j) (int (bitlen N) - 53)) k =
        round_double (N * k * 2 ^ 0) (2 ^ 0)"
      by (simp add: fmul_def)
    then show ?thesis
      by (simp only: round_double_exact [OF Nk assms(3)])
  next
    case False
    with le have "\<not> 0 \<le> int (bitlen N) - 53" "nat (- (int (bitlen N) - 53)) = ?j"
      by simp_all
    then have "fmul (Finite (N * 2 ^ ?j) (int (bitlen N) - 53)) k =
        round_double (N * k * 2 ^ ?j) (2 ^ ?j)"
      by (simp add: fmul_def arr)
    then show ?thesis
      by (simp only: round_double_exact [OF Nk assms(3)])
  qed
qed

lemma units_positive: "map_of units u = Some k \<Longrightarrow> 0 < k"
  by (auto simp: units_def split: if_splits)

text \<open>
  For a number without a dot the size is exact, as long as it stays below \<open>2 ^ 53\<close>.
\<close>

lemma parse_size_whole_number:
  assumes num: "num \<noteq> []" "list_all digit num"
    and unit: "map_of units (lower unit) = Some k"
    and small: "nat_of_digits num * k < 2 ^ 53"
  shows "parse_size (num @ unit) = Inr (int (nat_of_digits num * k))"
proof -
  let ?N = "nat_of_digits num"
  have k: "0 < k" using unit by (rule units_positive)
  have tw: "takeWhile digit num = num" "dropWhile digit num = []"
    using num(2) by (simp_all add: list_all_iff)
  have fl: "float_of_string num = Inr (round_double ?N 1)"
    using num(1) by (simp add: float_of_string_def tw)
  have "int_of_double (fmul (round_double ?N 1) k) = Inr (int (?N * k))"
  proof (cases "?N = 0")
    case True
    then show ?thesis
      by (simp add: round_double_def fmul_def int_of_double_def)
  next
    case False
    then have N: "0 < ?N" by simp
    have "?N \<le> ?N * k" using k by simp
    with small have N53: "?N < 2 ^ 53" by linarith
    have Nk: "0 < ?N * k" using N k by simp
    have "round_double ?N 1 = round_double (?N * 2 ^ 0) (2 ^ 0)" by simp
    also have "\<dots> = Finite (?N * 2 ^ (53 - bitlen ?N)) (int (bitlen ?N) - 53)"
      by (rule round_double_exact [OF N N53])
    finally show ?thesis
      by (simp only: fmul_exact [OF N k small] int_of_double_exact [OF Nk small])
  qed
  with parse_size_number_unit [OF fl unit] show ?thesis by simp
qed

section \<open>The total size\<close>

lemma rmatch_dd_is_dd:
  assumes "rmatch (Lit '' -- dd '' # Group n [Plus (none_of '' $'')] # rs) pre x caps = Some m"
  shows "is_dd x"
proof -
  from rmatch_Lit_Some [OF assms] obtain v where
    v: "x = '' -- dd '' @ v"
      "rmatch (Group n [Plus (none_of '' $'')] # rs) (pre @ '' -- dd '') v caps = Some m"
    by blast
  from rmatch_Group_Plus_Some [OF v(2)] obtain u w where
    "v = u @ w" "u \<noteq> []" "list_all (none_of '' $'') u"
    by blast
  then obtain c u' where "v = c # u' @ w" "none_of '' $'' c"
    by (cases u) auto
  with v(1) show ?thesis by (simp add: is_dd_def)
qed

text \<open>
  The long-format pattern of \<open>get_total_size\<close> on a filename that holds
  \<^verbatim>\<open> -- dd <size>\<close> once: the size token.
\<close>

lemma size_long_format_token:
  assumes f: "f = a @ '' -- dd '' @ tok @ rest"
    and a: "list_all anychar a"
    and tok: "tok \<noteq> []" "list_all (none_of '' $'') tok"
    and rest: "rest = [] \<or> \<not> none_of '' $'' (hd rest)"
    and once: "occurrences is_dd f \<le> 1"
  shows "re_match size_long_format f = Some [(''size_all'', tok)]"
proof -
  let ?m = "[(''size_all'', tok)]"
  let ?r1 = "[Group ''size_all'' [Plus (none_of '' $'')]]"
  let ?r0 = "Lit '' -- dd '' # ?r1"
  let ?v = "'' -- dd '' @ tok @ rest"
  have "rmatch [] ((a @ '' -- dd '') @ tok) rest ?m = Some ?m"
    by simp
  then have "rmatch ?r1 (a @ '' -- dd '') (tok @ rest) [] = Some ?m"
    by (intro rmatch_Group_Plus_max tok rest)
  then have here: "rmatch ?r0 (a @ []) ?v [] = Some ?m"
    by simp
  have later: "rmatch ?r0 (a @ w) x [] = None"
    if "w \<noteq> []" and "?v = w @ x" for w x
  proof (rule ccontr)
    assume "rmatch ?r0 (a @ w) x [] \<noteq> None"
    then obtain m' where "rmatch ?r0 (a @ w) x [] = Some m'" by auto
    then have hx: "is_dd x" by (rule rmatch_dd_is_dd)
    have hw: "is_dd (w @ x)"
      using tok that(2) [symmetric] by (cases tok) (auto simp: is_dd_def)
    have "2 \<le> occurrences is_dd (a @ w @ x)"
      by (rule occurrences_two [OF hw that(1) hx is_dd_nonempty [OF hx]])
    with once f that(2) show False by simp
  qed
  have "rmatch (Star anychar # ?r0) [] (a @ ?v) [] = Some ?m"
  proof (rule rmatch_Star_pick [OF a])
    show "rmatch ?r0 ([] @ a) ?v [] = Some ?m" using here by simp
    fix w x assume "w \<noteq> []" "?v = w @ x" "list_all anychar w"
    then have "rmatch ?r0 (a @ w) x [] = None" by (intro later)
    then show "rmatch ?r0 ([] @ a @ w) x [] = None" by simp
  qed
  then show ?thesis
    by (simp add: re_match_def size_long_format_def f)
qed

lemma short_builder_Inr:
  assumes "try_get_partitions_short_format files = Inr ps" and "ps \<noteq> []"
  shows "files \<noteq> [] \<and> (\<forall>f\<in>set files. re_match short_format f \<noteq> None)"
proof -
  from assms(1) obtain f0 fs where files: "files = f0 # fs"
    by (cases files) (auto simp: try_get_partitions_short_format_def)
  have sel: "re_match short_format f0 \<noteq> None"
    using assms by (auto simp: try_get_partitions_short_format_def files split: if_splits)
  then have loop: "short_loop (length files - 1) 0 first_partition_start files [] = Inr ps"
    using assms(1) unfolding try_get_partitions_short_format_def by (simp add: files)
  have "find (\<lambda>f. re_match short_format f = None) files = None"
  proof (cases "find (\<lambda>f. re_match short_format f = None) files")
    case (Some g)
    then have "short_loop (length files - 1) 0 first_partition_start files [] =
        Inl (PartitionParseException g)"
      by (rule short_loop_find_Some)
    with loop show ?thesis by simp
  qed simp
  then have "\<forall>f\<in>set files. re_match short_format f \<noteq> None"
    by (auto simp: find_None_iff)
  then show ?thesis
    by (simp add: files)
qed

lemma table_filenames:
  assumes "files \<noteq> []"
  shows "filename (hd (map (table_descriptor files) [0..<length files])) = hd files"
    and "filename (last (map (table_descriptor files) [0..<length files])) = last files"
proof -
  have name: "filename (table_descriptor files i) = files ! i" for i
    by (simp add: table_descriptor_def Let_def)
  from assms have n: "0 < length files" by simp
  then have ne: "[0..<length files] \<noteq> []" by simp
  have "hd (map (table_descriptor files) [0..<length files]) =
      table_descriptor files (hd [0..<length files])"
    using ne by (rule hd_map)
  also have "hd [0..<length files] = 0"
    using n by (rule hd_upt)
  finally have "filename (hd (map (table_descriptor files) [0..<length files])) = files ! 0"
    using name by simp
  also have "\<dots> = hd files"
    by (rule hd_conv_nth [OF assms, symmetric])
  finally show "filename (hd (map (table_descriptor files) [0..<length files])) = hd files" .
  have "last (map (table_descriptor files) [0..<length files]) =
      table_descriptor files (last [0..<length files])"
    using ne by (rule last_map)
  also have "last [0..<length files] = length files - 1"
    using n by (rule last_upt)
  finally have "filename (last (map (table_descriptor files) [0..<length files])) =
      files ! (length files - 1)"
    using name by simp
  also have "\<dots> = last files"
    by (rule last_conv_nth [OF assms, symmetric])
  finally show "filename (last (map (table_descriptor files) [0..<length files])) = last files" .
qed

lemma short_format_size_token:
  assumes m: "re_match short_format f \<noteq> None"
    and nomarker: "\<not> msdos_marker f"
    and once: "occurrences is_index f \<le> 1"
  shows "\<exists>m'. re_match size_short_format f = Some m' \<and>
           group m' ''partition_end'' = Some (end_token f)"
proof -
  from m obtain m0 where m0: "re_match short_format f = Some m0" by auto
  from short_format_Some [OF m0] obtain p ds sep ms e sep' t suf nl where
    f: "f = p @ ''partition'' @ ds @ [sep] @ ms @ e @ [sep'] @ t @ suf @ nl"
    and p: "list_all anychar p"
    and ds: "ds \<noteq> []" "length ds \<le> 2" "list_all digit ds"
    and sep: "one_of ''_ '' sep" "one_of ''_ '' sep'"
    and e: "e \<noteq> []" "list_all (none_of ''_ '') e"
    and g: "group m0 ''msdos'' = (if ms = [] then None else Some ms)"
      "group m0 ''partition_end'' = Some e"
    by blast
  from nomarker g(1) have ms: "ms = []"
    by (auto simp: msdos_marker_def m0 truthy_def split: if_splits)
  have tok: "end_token f = e"
    by (simp add: end_token_def m0 g(2))
  have "re_match size_short_format f = Some [(''partition_end'', e), (''1'', ds)]"
  proof (rule size_short_format_token [OF _ p ds sep(1) e _ once])
    show "f = p @ ''partition'' @ ds @ [sep] @ e @ ([sep'] @ t @ suf @ nl)"
      using f ms by simp
    show "[sep'] @ t @ suf @ nl = [] \<or> \<not> none_of ''_ '' (hd ([sep'] @ t @ suf @ nl))"
      using sep(2) by (simp add: one_of_def none_of_def)
  qed
  then show ?thesis
    by (simp add: group_def tok)
qed

lemma total_size_dd:
  assumes "re_match size_long_format (filename p) = Some m"
  shows "get_total_size (p # ps) = parse_size (the (group m ''size_all''))"
  using assms by (simp add: get_total_size_def)

lemma total_size_fallback:
  assumes "re_match size_long_format (filename p) = None"
  shows "get_total_size (p # ps) =
     (case re_match size_short_format (filename (last (p # ps))) of
        Some m \<Rightarrow> parse_size (the (group m ''partition_end''))
      | None \<Rightarrow> Inl (PartitionSizeParseException None))"
  using assms by (simp add: get_total_size_def)

lemma total_size_dd_once:
  assumes "filename p = a @ '' -- dd '' @ tok @ rest"
    and "list_all anychar a"
    and "tok \<noteq> []" and "list_all (none_of '' $'') tok"
    and "rest = [] \<or> \<not> none_of '' $'' (hd rest)"
    and "occurrences is_dd (filename p) \<le> 1"
  shows "get_total_size (p # ps) = parse_size tok"
proof -
  have "re_match size_long_format (filename p) = Some [(''size_all'', tok)]"
    using assms by (rule size_long_format_token)
  from total_size_dd [OF this] show ?thesis
    by (simp add: group_def)
qed

lemma total_size_long_name:
  assumes nodd: "re_match size_long_format (filename p) = None"
    and name: "filename (last (p # ps)) = d @ ''partition'' @ ds @ '' -- '' @ r"
    and d: "list_all anychar d"
    and ds: "ds \<noteq> []" "length ds \<le> 2" "list_all digit ds"
    and once: "occurrences is_index (filename (last (p # ps))) \<le> 1"
  shows "get_total_size (p # ps) = Inl (PartitionSizeParseException None)"
proof -
  have "re_match size_short_format (filename (last (p # ps))) =
      Some [(''partition_end'', ''--''), (''1'', ds)]"
  proof (rule size_short_format_token [OF _ d ds _ _ _ _ once])
    show "filename (last (p # ps)) = d @ ''partition'' @ ds @ [CHR '' ''] @ ''--'' @ ('' '' @ r)"
      using name by simp
    show "one_of ''_ '' (CHR '' '')" by (simp add: one_of_def)
    show "''--'' \<noteq> []" by simp
    show "list_all (none_of ''_ '') ''--''" by (simp add: none_of_def)
    show "'' '' @ r = [] \<or> \<not> none_of ''_ '' (hd ('' '' @ r))" by (simp add: none_of_def)
  qed
  with total_size_fallback [OF nodd, of ps] show ?thesis
    by (simp add: group_def parse_size_dashes)
qed

section \<open>The claims\<close>

text \<open>
  C1. For every non-empty list of filenames that all match the short format, the
  builder returns one descriptor per file, in order, and the descriptor at position
  \<open>i\<close> is \<open>table_descriptor files i\<close>: the first fragment is
  \<^verbatim>\<open>unit s mklabel <gpt|msdos> mkpart primary <fstype> 1MiB <end> set 1 boot on\<close>, with
  \<^verbatim>\<open>msdos\<close> exactly when the first filename carries the marker; every later fragment is
  \<^verbatim>\<open>mkpart primary <fstype> <start> <end>\<close> with the declared end of the previous file
  for its start; and the end shown for the last file is \<^verbatim>\<open>100%\<close>, whatever its
  filename declares. In particular the files \<^verbatim>\<open>partition01_8MiB_fat32\<close> and
  \<^verbatim>\<open>partition02_16GiB_ext4\<close> give the two fragments of the specification.
\<close>

theorem short_format_table:
  "(\<forall>files. files \<noteq> [] \<longrightarrow> (\<forall>f\<in>set files. re_match short_format f \<noteq> None) \<longrightarrow>
      try_get_partitions_short_format files =
      Inr (map (table_descriptor files) [0..<length files])) \<and>
   try_get_partitions_short_format [''partition01_8MiB_fat32'', ''partition02_16GiB_ext4''] =
     Inr [\<lparr>filename = ''partition01_8MiB_fat32'',
           parted = ''unit s mklabel gpt mkpart primary fat32 1MiB 8MiB set 1 boot on'',
           fstype = ''fat32''\<rparr>,
          \<lparr>filename = ''partition02_16GiB_ext4'',
           parted = ''mkpart primary ext4 8MiB 100%'',
           fstype = ''ext4''\<rparr>]"
proof (intro conjI allI impI)
  fix files :: "string list"
  assume "files \<noteq> []" and "\<forall>f\<in>set files. re_match short_format f \<noteq> None"
  then show "try_get_partitions_short_format files =
      Inr (map (table_descriptor files) [0..<length files])"
    by (rule short_builder_table)
next
  show "try_get_partitions_short_format [''partition01_8MiB_fat32'', ''partition02_16GiB_ext4''] =
     Inr [\<lparr>filename = ''partition01_8MiB_fat32'',
           parted = ''unit s mklabel gpt mkpart primary fat32 1MiB 8MiB set 1 boot on'',
           fstype = ''fat32''\<rparr>,
          \<lparr>filename = ''partition02_16GiB_ext4'',
           parted = ''mkpart primary ext4 8MiB 100%'',
           fstype = ''ext4''\<rparr>]"
    by (simp add: build_defs pat_defs cls_defs)
qed

text \<open>
  An instance with three files, the first with the \<^verbatim>\<open>msdos\<close> marker and a
  \<^verbatim>\<open>.tar.gz\<close> suffix, the second with spaces for separators.
\<close>

theorem short_format_table_witness:
  "[''partition01_msdos_512MiB_fat32.tar.gz'', ''partition02 2GiB linux-swap'',
    ''partition03_16GiB_ext4''] \<noteq> [] \<and>
   re_match short_format ''partition01_msdos_512MiB_fat32.tar.gz'' \<noteq> None \<and>
   re_match short_format ''partition02 2GiB linux-swap'' \<noteq> None \<and>
   re_match short_format ''partition03_16GiB_ext4'' \<noteq> None \<and>
   try_get_partitions_short_format
     [''partition01_msdos_512MiB_fat32.tar.gz'', ''partition02 2GiB linux-swap'',
      ''partition03_16GiB_ext4''] =
   Inr [\<lparr>filename = ''partition01_msdos_512MiB_fat32.tar.gz'',
         parted = ''unit s mklabel msdos mkpart primary fat32 1MiB 512MiB set 1 boot on'',
         fstype = ''fat32''\<rparr>,
        \<lparr>filename = ''partition02 2GiB linux-swap'',
         parted = ''mkpart primary linux-swap 512MiB 2GiB'',
         fstype = ''linux-swap''\<rparr>,
        \<lparr>filename = ''partition03_16GiB_ext4'',
         parted = ''mkpart primary ext4 2GiB 100%'',
         fstype = ''ext4''\<rparr>]"
proof -
  let ?files = "[''partition01_msdos_512MiB_fat32.tar.gz'', ''partition02 2GiB linux-swap'',
    ''partition03_16GiB_ext4'']"
  have h1: "?files \<noteq> []" by simp
  have h2: "\<forall>f\<in>set ?files. re_match short_format f \<noteq> None"
    by (simp add: build_defs pat_defs cls_defs)
  from short_format_table h1 h2
  have "try_get_partitions_short_format ?files =
      Inr (map (table_descriptor ?files) [0..<length ?files])"
    by blast
  moreover have "map (table_descriptor ?files) [0..<length ?files] =
      [\<lparr>filename = ''partition01_msdos_512MiB_fat32.tar.gz'',
         parted = ''unit s mklabel msdos mkpart primary fat32 1MiB 512MiB set 1 boot on'',
         fstype = ''fat32''\<rparr>,
        \<lparr>filename = ''partition02 2GiB linux-swap'',
         parted = ''mkpart primary linux-swap 512MiB 2GiB'',
         fstype = ''linux-swap''\<rparr>,
        \<lparr>filename = ''partition03_16GiB_ext4'',
         parted = ''mkpart primary ext4 2GiB 100%'',
         fstype = ''ext4''\<rparr>]"
    by (simp add: table_descriptor_def end_token_def fstype_token_def msdos_marker_def
        build_defs pat_defs cls_defs)
  ultimately show ?thesis using h1 h2 by simp
qed

text \<open>
  C2, as stated, fails: the product is computed in double precision, and the double
  nearest to 1.001 is a little below it, so that \<^verbatim>\<open>1.001KB\<close> resolves to 1000
  bytes, while the truncation of 1.001 times 1000 is 1001.
\<close>

theorem parse_size_not_exact_truncation:
  "parse_size ''1.001KB'' = Inr 1000 \<and> exact_truncation ''1.001'' 1000 = 1001"
  using parse_size_1_001KB
  by (simp add: exact_truncation_def nat_of_digits_def digit_val_def digit_def)

text \<open>
  C2, amended. For every token made of a number that \<^verbatim>\<open>float\<close> accepts and a unit
  of the table (in any letter case), the size resolver returns the truncation of the
  double-precision product of the double nearest to the number and the unit's
  multiplier (OverflowError when that product is infinite). For a number without a dot
  whose product with the multiplier is below \<open>2 ^ 53\<close> this is the exact product, and
  on the seven tokens of the specification it is the exact value.
\<close>

theorem parse_size_double_truncation:
  "(\<forall>num unit x k.
      float_of_string num = Inr x \<longrightarrow> map_of units (lower unit) = Some k \<longrightarrow>
      parse_size (num @ unit) = int_of_double (fmul x k)) \<and>
   (\<forall>num unit k.
      num \<noteq> [] \<longrightarrow> list_all digit num \<longrightarrow> map_of units (lower unit) = Some k \<longrightarrow>
      nat_of_digits num * k < 2 ^ 53 \<longrightarrow>
      parse_size (num @ unit) = Inr (int (nat_of_digits num * k))) \<and>
   parse_size ''5.5'' = Inr 5500000 \<and>
   parse_size ''100KB'' = Inr 100000 \<and>
   parse_size ''1KiB'' = Inr 1024 \<and>
   parse_size ''1MB'' = Inr 1000000 \<and>
   parse_size ''1MiB'' = Inr 1048576 \<and>
   parse_size ''1.5MiB'' = Inr 1572864 \<and>
   parse_size ''1.75GiB'' = Inr 1879048192"
  using parse_size_number_unit parse_size_whole_number parse_size_5_5 parse_size_100KB
    parse_size_1KiB parse_size_1MB parse_size_1MiB parse_size_1_5MiB parse_size_1_75GiB
  by (intro conjI allI impI) blast+

text \<open>Instances: \<^verbatim>\<open>2.5GiB\<close> is 2684354560 bytes, \<^verbatim>\<open>16gib\<close> is 17179869184.\<close>

theorem parse_size_double_truncation_witness:
  "float_of_string ''2.5'' = Inr (Finite 5629499534213120 (- 51)) \<and>
   map_of units (lower ''GiB'') = Some (1024 ^ 3) \<and>
   parse_size (''2.5'' @ ''GiB'') = Inr 2684354560 \<and>
   list_all digit ''16'' \<and>
   map_of units (lower ''gib'') = Some (1024 ^ 3) \<and>
   nat_of_digits ''16'' * 1024 ^ 3 < 2 ^ 53 \<and>
   parse_size (''16'' @ ''gib'') = Inr 17179869184"
proof -
  have h1: "float_of_string ''2.5'' = Inr (Finite 5629499534213120 (- 51))"
    by (simp add: size_defs cls_defs)
  have h2: "map_of units (lower ''GiB'') = Some (1024 ^ 3)"
    by (simp add: size_defs)
  have "parse_size (''2.5'' @ ''GiB'') =
      int_of_double (fmul (Finite 5629499534213120 (- 51)) (1024 ^ 3))"
    by (rule parse_size_double_truncation [THEN conjunct1, rule_format, OF h1 h2])
  moreover have "int_of_double (fmul (Finite 5629499534213120 (- 51)) (1024 ^ 3)) = Inr 2684354560"
    by (simp add: size_defs)
  ultimately have r1: "parse_size (''2.5'' @ ''GiB'') = Inr 2684354560"
    by simp
  have g1: "''16'' \<noteq> []" by simp
  have g2: "list_all digit ''16''" by (simp add: digit_def)
  have g3: "map_of units (lower ''gib'') = Some (1024 ^ 3)"
    by (simp add: size_defs)
  have n: "nat_of_digits ''16'' = 16"
    by (simp add: nat_of_digits_def digit_val_def)
  have g4: "nat_of_digits ''16'' * 1024 ^ 3 < 2 ^ 53"
    by (simp add: n)
  have "parse_size (''16'' @ ''gib'') = Inr (int (nat_of_digits ''16'' * 1024 ^ 3))"
    by (rule parse_size_double_truncation [THEN conjunct2, THEN conjunct1, rule_format,
          OF g1 g2 g3 g4])
  then have r2: "parse_size (''16'' @ ''gib'') = Inr 17179869184"
    by (simp add: n)
  from h1 h2 r1 g2 g3 g4 r2 show ?thesis by blast
qed

text \<open>
  C3, as stated, fails: \<open>get_total_size\<close> first looks for \<^verbatim>\<open> -- dd <size>\<close> in the
  first filename, whatever the format of the collection, and a filename is the whole
  path. A short-format partition in a directory named \<^verbatim>\<open>a -- dd 5MB x\<close> declares the
  end \<^verbatim>\<open>8MiB\<close>, 8388608 bytes, and the total size is 5000000.
\<close>

theorem short_format_total_size_from_dd:
  "from_directory [''a -- dd 5MB x/partition01_8MiB_fat32''] =
     Inr [\<lparr>filename = ''a -- dd 5MB x/partition01_8MiB_fat32'',
           parted = ''unit s mklabel gpt mkpart primary fat32 1MiB 100% set 1 boot on'',
           fstype = ''fat32''\<rparr>] \<and>
   end_token ''a -- dd 5MB x/partition01_8MiB_fat32'' = ''8MiB'' \<and>
   parse_size ''8MiB'' = Inr 8388608 \<and>
   get_total_size
     [\<lparr>filename = ''a -- dd 5MB x/partition01_8MiB_fat32'',
       parted = ''unit s mklabel gpt mkpart primary fat32 1MiB 100% set 1 boot on'',
       fstype = ''fat32''\<rparr>] = Inr 5000000"
proof -
  have "re_match size_long_format ''a -- dd 5MB x/partition01_8MiB_fat32'' =
      Some [(''size_all'', ''5MB'')]"
    by (simp add: build_defs pat_defs cls_defs)
  then have "get_total_size
     [\<lparr>filename = ''a -- dd 5MB x/partition01_8MiB_fat32'',
       parted = ''unit s mklabel gpt mkpart primary fat32 1MiB 100% set 1 boot on'',
       fstype = ''fat32''\<rparr>] = Inr 5000000"
    by (simp add: get_total_size_def group_def parse_size_5MB)
  moreover have "from_directory [''a -- dd 5MB x/partition01_8MiB_fat32''] =
     Inr [\<lparr>filename = ''a -- dd 5MB x/partition01_8MiB_fat32'',
           parted = ''unit s mklabel gpt mkpart primary fat32 1MiB 100% set 1 boot on'',
           fstype = ''fat32''\<rparr>]"
    by (simp add: build_defs pat_defs cls_defs)
  moreover have "end_token ''a -- dd 5MB x/partition01_8MiB_fat32'' = ''8MiB''"
    by (simp add: end_token_def build_defs pat_defs cls_defs)
  ultimately show ?thesis
    using parse_size_8MiB by simp
qed

text \<open>
  C3, amended. For every short-format partition collection whose first filename holds
  no \<^verbatim>\<open> -- dd <size>\<close> and whose last filename names its index once and carries no
  \<^verbatim>\<open>msdos\<close> marker, \<open>get_total_size\<close> returns the byte count resolved from the end the
  last filename declares: the token of the filename, not the \<^verbatim>\<open>100%\<close> that the last
  descriptor's script fragment shows.
\<close>

theorem short_format_total_size:
  assumes "try_get_partitions_short_format files = Inr partitions" and "partitions \<noteq> []"
    and "re_match size_long_format (hd files) = None"
    and "\<not> msdos_marker (last files)"
    and "occurrences is_index (last files) \<le> 1"
  shows "get_total_size partitions = parse_size (end_token (last files))"
proof -
  from short_builder_Inr [OF assms(1,2)]
  have ne: "files \<noteq> []" and ok: "\<forall>f\<in>set files. re_match short_format f \<noteq> None"
    by simp_all
  from short_builder_table [OF ne ok] assms(1)
  have ps: "partitions = map (table_descriptor files) [0..<length files]"
    by simp
  have first: "filename (hd partitions) = hd files" and last: "filename (last partitions) = last files"
    unfolding ps using ne by (rule table_filenames)+
  from ne ok have "re_match short_format (last files) \<noteq> None"
    by simp
  from short_format_size_token [OF this assms(4,5)] obtain m' where
    m': "re_match size_short_format (last files) = Some m'"
      "group m' ''partition_end'' = Some (end_token (last files))"
    by blast
  from assms(2) obtain p0 ps' where "partitions = p0 # ps'"
    by (cases partitions) auto
  with first last assms(3) m' show ?thesis
    by (simp add: get_total_size_def)
qed

text \<open>
  An instance: the two files of the specification. The last fragment ends in
  \<^verbatim>\<open>100%\<close>, the total size is that of \<^verbatim>\<open>16GiB\<close>.
\<close>

theorem short_format_total_size_witness:
  "try_get_partitions_short_format [''partition01_8MiB_fat32'', ''partition02_16GiB_ext4''] =
     Inr [\<lparr>filename = ''partition01_8MiB_fat32'',
           parted = ''unit s mklabel gpt mkpart primary fat32 1MiB 8MiB set 1 boot on'',
           fstype = ''fat32''\<rparr>,
          \<lparr>filename = ''partition02_16GiB_ext4'',
           parted = ''mkpart primary ext4 8MiB 100%'',
           fstype = ''ext4''\<rparr>] \<and>
   re_match size_long_format ''partition01_8MiB_fat32'' = None \<and>
   \<not> msdos_marker ''partition02_16GiB_ext4'' \<and>
   occurrences is_index ''partition02_16GiB_ext4'' \<le> 1 \<and>
   get_total_size
     [\<lparr>filename = ''partition01_8MiB_fat32'',
       parted = ''unit s mklabel gpt mkpart primary fat32 1MiB 8MiB set 1 boot on'',
       fstype = ''fat32''\<rparr>,
      \<lparr>filename = ''partition02_16GiB_ext4'',
       parted = ''mkpart primary ext4 8MiB 100%'',
       fstype = ''ext4''\<rparr>] = Inr 17179869184"
proof -
  let ?files = "[''partition01_8MiB_fat32'', ''partition02_16GiB_ext4'']"
  let ?ps = "[\<lparr>filename = ''partition01_8MiB_fat32'',
       parted = ''unit s mklabel gpt mkpart primary fat32 1MiB 8MiB set 1 boot on'',
       fstype = ''fat32''\<rparr>,
      \<lparr>filename = ''partition02_16GiB_ext4'',
       parted = ''mkpart primary ext4 8MiB 100%'',
       fstype = ''ext4''\<rparr>]"
  have h1: "try_get_partitions_short_format ?files = Inr ?ps"
    by (simp add: build_defs pat_defs cls_defs)
  have h2: "?ps \<noteq> []" by simp
  have h3: "re_match size_long_format (hd ?files) = None"
    by (simp add: build_defs pat_defs cls_defs)
  have h4: "\<not> msdos_marker (last ?files)"
    by (simp add: msdos_marker_def build_defs pat_defs cls_defs)
  have h5: "occurrences is_index (last ?files) \<le> 1"
    by (simp add: is_index_def cls_defs)
  have tok: "end_token (last ?files) = ''16GiB''"
    by (simp add: end_token_def build_defs pat_defs cls_defs)
  from short_format_total_size [OF h1 h2 h3 h4 h5]
  have "get_total_size ?ps = Inr 17179869184"
    unfolding tok by (simp only: parse_size_16GiB)
  with h1 h3 h4 h5 show ?thesis by simp
qed

text \<open>
  C4, as stated, fails in its second half: without \<^verbatim>\<open> -- dd <size>\<close> in the first
  filename \<open>get_total_size\<close> goes on to the short-format rule, and a long-format name
  may satisfy it. The file below is a long-format collection of one, with no
  \<^verbatim>\<open>dd\<close> part, and its total size is that of \<^verbatim>\<open>256MiB\<close> rather than an error.
\<close>

theorem long_format_total_size_not_error:
  "from_directory
     [''partition01_256MiB -- parted mklabel msdos mkpart primary fat32 1 8MiB''] =
     Inr [\<lparr>filename = ''partition01_256MiB -- parted mklabel msdos mkpart primary fat32 1 8MiB'',
           parted = ''mklabel msdos mkpart primary fat32 1 8MiB'',
           fstype = ''fat32''\<rparr>] \<and>
   re_match long_format
     ''partition01_256MiB -- parted mklabel msdos mkpart primary fat32 1 8MiB'' =
     Some [(''parted'', ''mklabel msdos mkpart primary fat32 1 8MiB''), (''1'', ''01'')] \<and>
   re_match size_long_format
     ''partition01_256MiB -- parted mklabel msdos mkpart primary fat32 1 8MiB'' = None \<and>
   get_total_size
     [\<lparr>filename = ''partition01_256MiB -- parted mklabel msdos mkpart primary fat32 1 8MiB'',
       parted = ''mklabel msdos mkpart primary fat32 1 8MiB'',
       fstype = ''fat32''\<rparr>] = Inr 268435456"
proof -
  let ?f = "''partition01_256MiB -- parted mklabel msdos mkpart primary fat32 1 8MiB''"
  have 1: "from_directory [?f] =
      Inr [\<lparr>filename = ?f, parted = ''mklabel msdos mkpart primary fat32 1 8MiB'',
            fstype = ''fat32''\<rparr>]"
    by (simp add: build_defs pat_defs cls_defs)
  have 2: "re_match long_format ?f =
      Some [(''parted'', ''mklabel msdos mkpart primary fat32 1 8MiB''), (''1'', ''01'')]"
    by (simp add: build_defs pat_defs cls_defs)
  have 3: "re_match size_long_format ?f = None"
    by (simp add: build_defs pat_defs cls_defs)
  have 4: "re_match size_short_format ?f = Some [(''partition_end'', ''256MiB''), (''1'', ''01'')]"
    by (simp add: build_defs pat_defs cls_defs)
  have "get_total_size
      [\<lparr>filename = ?f, parted = ''mklabel msdos mkpart primary fat32 1 8MiB'',
        fstype = ''fat32''\<rparr>] = Inr 268435456"
    using 3 4 by (simp add: get_total_size_def group_def parse_size_256MiB)
  with 1 2 3 show ?thesis by simp
qed

text \<open>
  C4, amended. For every partition collection whose first filename holds
  \<^verbatim>\<open> -- dd <size>\<close>, \<open>get_total_size\<close> returns the byte count resolved from that
  token, whatever the other partitions are: the token the pattern captures, which is
  the one token of that form when there is only one. If the first filename holds no
  such pattern, the result is that of the short-format rule on the last filename: the
  token after \<^verbatim>\<open>partitionNN\<close> and a separator is resolved, and there is an error when
  there is no such token or when it is no size; this is the case for a last filename
  that names its index once and goes on with \<^verbatim>\<open> -- \<close>, as long-format names do.
\<close>

theorem long_format_total_size:
  "(\<forall>p ps m. re_match size_long_format (filename p) = Some m \<longrightarrow>
      get_total_size (p # ps) = parse_size (the (group m ''size_all''))) \<and>
   (\<forall>p ps a tok rest.
      filename p = a @ '' -- dd '' @ tok @ rest \<longrightarrow> list_all anychar a \<longrightarrow>
      tok \<noteq> [] \<longrightarrow> list_all (none_of '' $'') tok \<longrightarrow>
      (rest = [] \<or> \<not> none_of '' $'' (hd rest)) \<longrightarrow>
      occurrences is_dd (filename p) \<le> 1 \<longrightarrow>
      get_total_size (p # ps) = parse_size tok) \<and>
   (\<forall>p ps. re_match size_long_format (filename p) = None \<longrightarrow>
      get_total_size (p # ps) =
      (case re_match size_short_format (filename (last (p # ps))) of
         Some m \<Rightarrow> parse_size (the (group m ''partition_end''))
       | None \<Rightarrow> Inl (PartitionSizeParseException None))) \<and>
   (\<forall>p ps d ds r.
      re_match size_long_format (filename p) = None \<longrightarrow>
      filename (last (p # ps)) = d @ ''partition'' @ ds @ '' -- '' @ r \<longrightarrow>
      list_all anychar d \<longrightarrow> ds \<noteq> [] \<longrightarrow> length ds \<le> 2 \<longrightarrow> list_all digit ds \<longrightarrow>
      occurrences is_index (filename (last (p # ps))) \<le> 1 \<longrightarrow>
      get_total_size (p # ps) = Inl (PartitionSizeParseException None))"
  using total_size_dd total_size_dd_once total_size_fallback total_size_long_name
  by (intro conjI allI impI) blast+

text \<open>
  An instance: the two long-format files of the program's description give the size of
  \<^verbatim>\<open>256MiB\<close>; the second file alone gives an error.
\<close>

theorem long_format_total_size_witness:
  "occurrences is_dd
     ''partition01 -- dd 256MiB -- parted mklabel msdos mkpart primary fat32 1 8MiB'' \<le> 1 \<and>
   get_total_size
     [\<lparr>filename =
         ''partition01 -- dd 256MiB -- parted mklabel msdos mkpart primary fat32 1 8MiB'',
       parted = ''mklabel msdos mkpart primary fat32 1 8MiB'', fstype = ''fat32''\<rparr>,
      \<lparr>filename = ''partition02 -- parted mkpart primary ext4 8MiB 100%'',
       parted = ''mkpart primary ext4 8MiB 100%'', fstype = ''ext4''\<rparr>] = Inr 268435456 \<and>
   re_match size_long_format ''partition02 -- parted mkpart primary ext4 8MiB 100%'' = None \<and>
   occurrences is_index ''partition02 -- parted mkpart primary ext4 8MiB 100%'' \<le> 1 \<and>
   get_total_size
     [\<lparr>filename = ''partition02 -- parted mkpart primary ext4 8MiB 100%'',
       parted = ''mkpart primary ext4 8MiB 100%'', fstype = ''ext4''\<rparr>] =
     Inl (PartitionSizeParseException None)"
proof -
  let ?f1 = "''partition01 -- dd 256MiB -- parted mklabel msdos mkpart primary fat32 1 8MiB''"
  let ?f2 = "''partition02 -- parted mkpart primary ext4 8MiB 100%''"
  let ?p1 = "\<lparr>filename = ?f1, parted = ''mklabel msdos mkpart primary fat32 1 8MiB'',
     fstype = ''fat32''\<rparr>"
  let ?p2 = "\<lparr>filename = ?f2, parted = ''mkpart primary ext4 8MiB 100%'', fstype = ''ext4''\<rparr>"
  have a1: "filename ?p1 = ''partition01'' @ '' -- dd '' @ ''256MiB'' @
      '' -- parted mklabel msdos mkpart primary fat32 1 8MiB''"
    by simp
  have a2: "list_all anychar ''partition01''" by (simp add: anychar_def)
  have a3: "''256MiB'' \<noteq> []" by simp
  have a4: "list_all (none_of '' $'') ''256MiB''" by (simp add: none_of_def)
  have a5: "'' -- parted mklabel msdos mkpart primary fat32 1 8MiB'' = [] \<or>
      \<not> none_of '' $'' (hd '' -- parted mklabel msdos mkpart primary fat32 1 8MiB'')"
    by (simp add: none_of_def)
  have a6: "occurrences is_dd (filename ?p1) \<le> 1"
    by (simp add: is_dd_def none_of_def)
  have "get_total_size (?p1 # [?p2]) = parse_size ''256MiB''"
    by (rule long_format_total_size [THEN conjunct2, THEN conjunct1, rule_format,
          OF a1 a2 a3 a4 a5 a6])
  then have r1: "get_total_size [?p1, ?p2] = Inr 268435456"
    by (simp only: parse_size_256MiB)
  have b1: "re_match size_long_format (filename ?p2) = None"
    by (simp add: build_defs pat_defs cls_defs)
  have b2: "filename (last (?p2 # [])) =
      [] @ ''partition'' @ ''02'' @ '' -- '' @ ''parted mkpart primary ext4 8MiB 100%''"
    by simp
  have b3: "list_all anychar []" by simp
  have b4: "''02'' \<noteq> []" "length ''02'' \<le> 2" "list_all digit ''02''"
    by (simp_all add: digit_def)
  have b5: "occurrences is_index (filename (last (?p2 # []))) \<le> 1"
    by (simp add: is_index_def digit_def)
  have r2: "get_total_size (?p2 # []) = Inl (PartitionSizeParseException None)"
    by (rule long_format_total_size [THEN conjunct2, THEN conjunct2, THEN conjunct2, rule_format,
          OF b1 b2 b3 b4 b5])
  from a6 r1 b1 b5 r2 show ?thesis by simp
qed

text \<open>
  C5. An empty directory listing should make \<open>from_directory\<close> fail with
  \<open>PartitionsNotFoundException\<close>. The code reads \<^verbatim>\<open>files[0]\<close> in the long-format
  builder before it looks at the length of anything: on the empty listing it raises
  IndexError, and the test \<^verbatim>\<open>len(partitions) == 0\<close> is never reached.
\<close>

theorem from_directory_empty_listing: "from_directory [] = Inl IndexError"
  by (simp add: build_defs)

text \<open>
  C6. For every non-empty sorted list of filenames the first file alone selects the
  format, the long format before the short one. Once the long format is selected, the
  result is the list of long-format descriptors, or, when some file fails the long
  format's patterns, \<open>PartitionParseException\<close> naming the first such file; the same
  holds for the short format and its pattern. The other format is never consulted for
  a later file. When the first file matches neither format, no partitions are found.
\<close>

theorem format_selected_by_first_file:
  assumes "files \<noteq> []" and "sorted files"
  shows "from_directory files =
    (if re_match long_format (hd files) \<noteq> None then
       (case find (\<lambda>f. \<not> long_ok f) files of
          Some f \<Rightarrow> Inl (PartitionParseException f)
        | None \<Rightarrow> Inr (map long_descriptor files))
     else if re_match short_format (hd files) \<noteq> None then
       (case find (\<lambda>f. re_match short_format f = None) files of
          Some f \<Rightarrow> Inl (PartitionParseException f)
        | None \<Rightarrow> Inr (map (table_descriptor files) [0..<length files]))
     else Inl PartitionsNotFoundException)"
proof -
  from assms(1) obtain f0 fs where files: "files = f0 # fs"
    by (cases files) auto
  have srt: "sort files = files"
    using assms(2) by (simp add: sorted_sort_id)
  show ?thesis
  proof (cases "re_match long_format f0 \<noteq> None")
    case True
    then have "try_get_partitions_long_format files = long_loop files []"
      by (simp add: try_get_partitions_long_format_def files)
    then have "try_get_partitions_long_format files =
        (case find (\<lambda>f. \<not> long_ok f) files of
           Some f \<Rightarrow> Inl (PartitionParseException f)
         | None \<Rightarrow> Inr (map long_descriptor files))"
      by (simp add: long_loop_find split: option.splits)
    with True assms(1) show ?thesis
      unfolding from_directory_def srt Let_def
      by (simp add: files split: option.splits)
  next
    case False
    then have long: "try_get_partitions_long_format files = Inr []"
      by (simp add: try_get_partitions_long_format_def files)
    show ?thesis
    proof (cases "re_match short_format f0 \<noteq> None")
      case sel: True
      show ?thesis
      proof (cases "find (\<lambda>f. re_match short_format f = None) files")
        case None
        then have "\<forall>f\<in>set files. re_match short_format f \<noteq> None"
          by (simp add: find_None_iff)
        with assms(1)
        have "try_get_partitions_short_format files =
            Inr (map (table_descriptor files) [0..<length files])"
          by (rule short_builder_table)
        with False sel None assms(1) long show ?thesis
          unfolding from_directory_def srt Let_def
          by (simp add: files)
      next
        case (Some g)
        then have "short_loop (length files - 1) 0 first_partition_start files [] =
            Inl (PartitionParseException g)"
          by (rule short_loop_find_Some)
        moreover have "try_get_partitions_short_format files =
            short_loop (length files - 1) 0 first_partition_start files []"
          using sel unfolding try_get_partitions_short_format_def by (simp add: files)
        ultimately
        have "try_get_partitions_short_format files = Inl (PartitionParseException g)"
          by simp
        with False sel Some long show ?thesis
          unfolding from_directory_def srt Let_def
          by (simp add: files)
      qed
    next
      case nosel: False
      then have "try_get_partitions_short_format files = Inr []"
        by (simp add: try_get_partitions_short_format_def files)
      with False nosel long show ?thesis
        unfolding from_directory_def srt Let_def
        by (simp add: files)
    qed
  qed
qed

text \<open>
  An instance: after a long-format first file, a second file in short-format syntax is a
  parse error, although the short format would accept it.
\<close>

theorem format_selected_by_first_file_witness:
  "[''partition01 -- dd 256MiB -- parted mklabel msdos mkpart primary fat32 1 8MiB'',
    ''partition02_16GiB_ext4''] \<noteq> [] \<and>
   sorted [''partition01 -- dd 256MiB -- parted mklabel msdos mkpart primary fat32 1 8MiB'',
           ''partition02_16GiB_ext4''] \<and>
   re_match short_format ''partition02_16GiB_ext4'' \<noteq> None \<and>
   from_directory
     [''partition01 -- dd 256MiB -- parted mklabel msdos mkpart primary fat32 1 8MiB'',
      ''partition02_16GiB_ext4''] =
   Inl (PartitionParseException ''partition02_16GiB_ext4'')"
proof -
  let ?f1 = "''partition01 -- dd 256MiB -- parted mklabel msdos mkpart primary fat32 1 8MiB''"
  let ?f2 = "''partition02_16GiB_ext4''"
  have h1: "[?f1, ?f2] \<noteq> []" by simp
  have h2: "sorted [?f1, ?f2]" by simp
  have sel: "re_match long_format ?f1 \<noteq> None"
    by (simp add: build_defs pat_defs cls_defs)
  have ok1: "long_ok ?f1"
    by (simp add: long_ok_def parted_text_def build_defs pat_defs cls_defs)
  have ok2: "\<not> long_ok ?f2"
    by (simp add: long_ok_def parted_text_def build_defs pat_defs cls_defs)
  have short2: "re_match short_format ?f2 \<noteq> None"
    by (simp add: build_defs pat_defs cls_defs)
  from format_selected_by_first_file [OF h1 h2] sel ok1 ok2
  have "from_directory [?f1, ?f2] = Inl (PartitionParseException ?f2)"
    by simp
  with h1 h2 short2 show ?thesis by blast
qed

text \<open>
  C7. A long-format filename ending in \<^verbatim>\<open>.tar\<close> should give a script fragment without
  that suffix. The greedy \<^verbatim>\<open>.*\<close> of the group \<^verbatim>\<open>parted\<close> takes the suffix before the
  optional group after it is tried, so the fragment keeps it. This is so for every
  filename (\<open>long_format_Some\<close>: the fragment is always the whole rest of the name);
  the theorem shows it on the first example of the program's description, as a
  \<^verbatim>\<open>.tar\<close> file.
\<close>

theorem long_format_keeps_tar_suffix:
  "from_directory
     [''partition01 -- dd 256MiB -- parted mklabel msdos mkpart primary fat32 1 8MiB.tar''] =
   Inr [\<lparr>filename =
           ''partition01 -- dd 256MiB -- parted mklabel msdos mkpart primary fat32 1 8MiB.tar'',
         parted = ''mklabel msdos mkpart primary fat32 1 8MiB.tar'',
         fstype = ''fat32''\<rparr>]"
  by (simp add: build_defs pat_defs cls_defs)

text \<open>
  C8. A token that is not a number followed by a known unit should fail with
  \<open>PartitionSizeParseException\<close> and nothing else. A number with two dots passes the
  pattern \<^verbatim>\<open>[\d\.]+\<close> and reaches \<^verbatim>\<open>float\<close>, which raises ValueError. The token
  \<^verbatim>\<open>100%\<close> and a token with an unknown unit fail as claimed.
\<close>

theorem parse_size_malformed_number:
  "parse_size ''1.2.3MiB'' = Inl ValueError \<and>
   parse_size ''100%'' = Inl (PartitionSizeParseException None) \<and>
   parse_size ''8MiBs'' = Inl (PartitionSizeParseException None)"
  by (simp add: size_defs build_defs pat_defs cls_defs)

text \<open>
  C9. The result of \<open>from_directory\<close> is a function of the set of filenames that the
  directory holds and of nothing else: no state is read or kept between calls, and the
  order in which the directory happens to be listed does not matter, since the names
  are sorted first. Two runs on the same filenames return the same descriptors, in the
  same order, or the same error.
\<close>

theorem from_directory_listing_order:
  assumes "mset listing1 = mset listing2"
  shows "from_directory listing1 = from_directory listing2"
proof -
  from assms have "sort listing1 = sort listing2"
    by (metis sorted_list_of_multiset_mset)
  then show ?thesis
    by (simp add: from_directory_def)
qed

text \<open>An instance: the two files of the specification, listed in either order.\<close>

theorem from_directory_listing_order_witness:
  "mset [''partition02_16GiB_ext4'', ''partition01_8MiB_fat32''] =
   mset [''partition01_8MiB_fat32'', ''partition02_16GiB_ext4''] \<and>
   from_directory [''partition02_16GiB_ext4'', ''partition01_8MiB_fat32''] =
   from_directory [''partition01_8MiB_fat32'', ''partition02_16GiB_ext4'']"
proof -
  have h: "mset [''partition02_16GiB_ext4'', ''partition01_8MiB_fat32''] =
      mset [''partition01_8MiB_fat32'', ''partition02_16GiB_ext4'']"
    by simp
  from from_directory_listing_order [OF h] h show ?thesis by blast
qed

text \<open>
  C10. A short-format set of one file should get table type, boot flag and the end
  \<^verbatim>\<open>100%\<close> on its one descriptor, and its total size from the end the filename
  declares. For a single file with the \<^verbatim>\<open>msdos\<close> marker the descriptor is as claimed,
  but the pattern of \<open>get_total_size\<close> has no place for the marker: it takes
  \<^verbatim>\<open>msdos\<close> for the end, and the size cannot be parsed, while the declared end
  \<^verbatim>\<open>8MiB\<close> is 8388608 bytes.
\<close>

theorem single_msdos_file_total_size:
  "from_directory [''partition01_msdos_8MiB_fat32''] =
     Inr [\<lparr>filename = ''partition01_msdos_8MiB_fat32'',
           parted = ''unit s mklabel msdos mkpart primary fat32 1MiB 100% set 1 boot on'',
           fstype = ''fat32''\<rparr>] \<and>
   end_token ''partition01_msdos_8MiB_fat32'' = ''8MiB'' \<and>
   parse_size ''8MiB'' = Inr 8388608 \<and>
   get_total_size
     [\<lparr>filename = ''partition01_msdos_8MiB_fat32'',
       parted = ''unit s mklabel msdos mkpart primary fat32 1MiB 100% set 1 boot on'',
       fstype = ''fat32''\<rparr>] = Inl (PartitionSizeParseException None)"
proof -
  have "re_match size_long_format ''partition01_msdos_8MiB_fat32'' = None"
    by (simp add: build_defs pat_defs cls_defs)
  moreover have "re_match size_short_format ''partition01_msdos_8MiB_fat32'' =
      Some [(''partition_end'', ''msdos''), (''1'', ''01'')]"
    by (simp add: build_defs pat_defs cls_defs)
  ultimately have "get_total_size
     [\<lparr>filename = ''partition01_msdos_8MiB_fat32'',
       parted = ''unit s mklabel msdos mkpart primary fat32 1MiB 100% set 1 boot on'',
       fstype = ''fat32''\<rparr>] = Inl (PartitionSizeParseException None)"
    by (simp add: get_total_size_def group_def parse_size_msdos)
  moreover have "from_directory [''partition01_msdos_8MiB_fat32''] =
     Inr [\<lparr>filename = ''partition01_msdos_8MiB_fat32'',
           parted = ''unit s mklabel msdos mkpart primary fat32 1MiB 100% set 1 boot on'',
           fstype = ''fat32''\<rparr>]"
    by (simp add: build_defs pat_defs cls_defs)
  moreover have "end_token ''partition01_msdos_8MiB_fat32'' = ''8MiB''"
    by (simp add: end_token_def build_defs pat_defs cls_defs)
  ultimately show ?thesis
    using parse_size_8MiB by simp
qed

end
